theory Spec2Isabelle
  imports Complex_Main "HOL-Library.AList"
begin

section \<open>Data model of render_images.py\<close>

text \<open>
  Python floats are read as real numbers throughout: \<open>math.sqrt\<close> is \<open>sqrt\<close>,
  \<open>math.pi\<close> is \<open>pi\<close>. Python dictionaries are association lists in insertion
  order, looked up with \<open>map_of\<close> and written with \<open>AList.update\<close>.
\<close>

type_synonym vec3 = "real \<times> real \<times> real"

type_synonym pixel = "int \<times> int"

text \<open>The dictionary appended to \<open>objects\<close> at the end of one slot of add_random_objects.\<close>

record scene_object =
  shape :: string
  size_name :: string
  material :: string
  coords3d :: vec3
  rotation :: real
  pixel_coords :: pixel
  color :: string

text \<open>The \<open>scene_struct\<close> dictionary built in render_scene.\<close>

record scene_struct =
  split :: string
  image_index :: int
  image_filename :: "string option"
  objects :: "scene_object list"
  directions :: "(string \<times> vec3) list"

section \<open>compute_all_relationships\<close>

text \<open>\<open>diff = [coords2[k] - coords1[k] for k in [0, 1, 2]]\<close>\<close>

definition diff3 :: "vec3 \<Rightarrow> vec3 \<Rightarrow> vec3" where
  "diff3 coords2 coords1 =
     (case coords2 of (a0, a1, a2) \<Rightarrow> case coords1 of (b0, b1, b2) \<Rightarrow>
        (a0 - b0, a1 - b1, a2 - b2))"

text \<open>\<open>dot = sum(diff[k] * direction_vec[k] for k in [0, 1, 2])\<close>; \<open>sum\<close> starts at 0.\<close>

definition dot3 :: "vec3 \<Rightarrow> vec3 \<Rightarrow> real" where
  "dot3 diff direction_vec =
     (case diff of (d0, d1, d2) \<Rightarrow> case direction_vec of (v0, v1, v2) \<Rightarrow>
        0 + d0 * v0 + d1 * v1 + d2 * v2)"

text \<open>
  One pass of the inner loop over \<open>enumerate(scene_struct['objects'])\<close>. The set
  \<open>related\<close> is a duplicate-free list; \<open>related.add(j)\<close> is \<open>List.insert\<close>.
  The test \<open>obj1 == obj2\<close> compares the two dictionaries by value, as Python does.
\<close>

definition relate_step ::
  "real \<Rightarrow> vec3 \<Rightarrow> scene_object \<Rightarrow> nat \<times> scene_object \<Rightarrow> nat list \<Rightarrow> nat list" where
  "relate_step eps direction_vec obj1 p related =
     (case p of (j, obj2) \<Rightarrow>
        if obj1 = obj2 then related
        else if dot3 (diff3 (coords3d obj2) (coords3d obj1)) direction_vec > eps
             then List.insert j related
             else related)"

definition related_of :: "real \<Rightarrow> vec3 \<Rightarrow> scene_object list \<Rightarrow> scene_object \<Rightarrow> nat list" where
  "related_of eps direction_vec objs obj1 =
     fold (relate_step eps direction_vec obj1) (enumerate 0 objs) []"

text \<open>
  The body of the outer loop for one direction name:
  \<open>all_relationships[name] = []\<close>, then one \<open>sorted(list(related))\<close> appended per object.
\<close>

definition relate_direction ::
  "real \<Rightarrow> scene_object list \<Rightarrow> string \<times> vec3 \<Rightarrow>
   (string \<times> nat list list) list \<Rightarrow> (string \<times> nat list list) list" where
  "relate_direction eps objs p all_relationships =
     (case p of (name, direction_vec) \<Rightarrow>
        if name = ''above'' \<or> name = ''below'' then all_relationships
        else AList.update name
               (map (\<lambda>obj1. sort (related_of eps direction_vec objs obj1)) objs)
               all_relationships)"

definition compute_all_relationships ::
  "scene_struct \<Rightarrow> real \<Rightarrow> (string \<times> nat list list) list" where
  "compute_all_relationships scene eps =
     fold (relate_direction eps (objects scene)) (directions scene) []"

section \<open>The environment: parsed arguments, catalog files, Blender, random numbers\<close>

text \<open>The fields of \<open>args\<close> that render_scene and add_random_objects read.\<close>

record args =
  min_dist :: real
  margin :: real
  max_retries :: int
  num_cams :: int
  key_light_jitter :: real
  back_light_jitter :: real
  fill_light_jitter :: real

text \<open>
  The JSON object loaded from \<open>args.properties_json\<close>: four dictionaries, each an
  association list in file order.
\<close>

record properties =
  colors :: "(string \<times> real list) list"
  materials :: "(string \<times> string) list"
  shapes :: "(string \<times> string) list"
  sizes :: "(string \<times> real) list"

type_synonym handle = nat

text \<open>The calls made to the scene-graph helpers of \<open>utils\<close>, in the order they happen.\<close>

datatype event =
    AddObject string real "real \<times> real" real
  | SetLayer handle
  | AddMaterial string "real list"
  | DeleteObject handle

text \<open>
  Everything outside the script that it reads or changes: the state of Python's
  \<open>random\<close> module, Blender's \<open>bpy.data.objects\<close>, the camera and the three lamps.
  The random state is the finite supply of draws still to come: \<open>rng_ints\<close> feeds
  \<open>random.choice\<close>, \<open>rng_units\<close> feeds \<open>random.random\<close> (values meant in [0, 1)),
  and \<open>render_ok\<close> tells for each coming call of \<open>bpy.ops.render.render\<close> whether it
  returns (True) or raises. A run that asks for more draws than are supplied has not
  finished within them; it is the result \<open>Starved\<close> below.
\<close>

record world =
  rng_ints :: "nat list"
  rng_units :: "real list"
  render_ok :: "bool list"
  data_objects :: "handle list"
  calls :: "event list"
  camera_location :: vec3
  lamp_key_location :: vec3
  lamp_back_location :: vec3
  lamp_fill_location :: vec3

text \<open>
  What a run is given besides the world: the parsed arguments, the contents of the two
  JSON files, and the two readings of Blender that the script stores without
  interpreting them: \<open>obj.location\<close> of a freshly added object and
  \<open>utils.get_camera_coords\<close>.
\<close>

record env =
  args :: args
  properties :: properties
  shape_color_combos :: "(string \<times> string list) list option"
  object_location :: "string \<Rightarrow> real \<Rightarrow> real \<times> real \<Rightarrow> real \<Rightarrow> vec3"
  get_camera_coords :: "vec3 \<Rightarrow> vec3 \<Rightarrow> pixel"

text \<open>
  The exceptions the script can raise: \<open>EmptyChoice\<close> is the IndexError of
  \<open>random.choice\<close> on an empty sequence, \<open>ShapeLookup\<close> the IndexError of
  \<open>[k for k, v in object_mapping if v == obj_name_out][0]\<close>, \<open>ColorLookup\<close> the
  KeyError of \<open>color_name_to_rgba[color_name]\<close>, and \<open>ZeroDivision\<close> the
  ZeroDivisionError of \<open>360.0 / args.num_cams\<close>.
\<close>

datatype error = EmptyChoice | ShapeLookup string | ColorLookup string | ZeroDivision

text \<open>
  A computation returns a value and the world it leaves, raises in the world it has
  reached, or is \<open>Starved\<close>.
\<close>

datatype 'a result = Return 'a world | Raise error world | Starved

subsection \<open>The random module\<close>

text \<open>
  \<open>random.choice(seq)\<close> raises on an empty sequence before drawing anything, and
  otherwise returns \<open>seq[k]\<close> for a drawn index \<open>k\<close> below \<open>len(seq)\<close>.
\<close>

definition random_choice :: "'a list \<Rightarrow> world \<Rightarrow> 'a result" where
  "random_choice seq w =
     (if seq = [] then Raise EmptyChoice w
      else case rng_ints w of
             [] \<Rightarrow> Starved
           | k # ks \<Rightarrow> Return (seq ! (k mod length seq)) (w\<lparr>rng_ints := ks\<rparr>))"

definition random_random :: "world \<Rightarrow> real result" where
  "random_random w =
     (case rng_units w of
        [] \<Rightarrow> Starved
      | u # us \<Rightarrow> Return u (w\<lparr>rng_units := us\<rparr>))"

text \<open>\<open>random.uniform(a, b)\<close> is \<open>a + (b - a) * random()\<close>.\<close>

definition random_uniform :: "real \<Rightarrow> real \<Rightarrow> world \<Rightarrow> real result" where
  "random_uniform a b w =
     (case random_random w of
        Return u w' \<Rightarrow> Return (a + (b - a) * u) w'
      | Raise e w' \<Rightarrow> Raise e w'
      | Starved \<Rightarrow> Starved)"

subsection \<open>The scene-graph helpers of utils\<close>

text \<open>
  The module \<open>utils\<close> is not part of the source file. The spec lists its scene-graph
  functions as \<open>add_object(catalog_dir, shape_id, scale, (x,y), rotation_deg) -> opaque
  object handle\<close>, \<open>delete_object(handle)\<close> and
  \<open>attach_material(material_id, color_rgba, handle)\<close>. Each call is recorded in
  \<open>calls\<close>, and none of them raises.
\<close>

text \<open>
  Modelled from the spec: the handle \<open>utils.add_object\<close> gives to the object it adds
  is missing; it is a handle that no object of \<open>bpy.data.objects\<close> has.
\<close>

definition fresh_handle :: "world \<Rightarrow> handle" where
  "fresh_handle w = Suc (fold max (data_objects w) 0)"

text \<open>
  Modelled from the spec: \<open>utils.add_object\<close> is missing. It puts one new object
  into \<open>bpy.data.objects\<close>; the script reads its handle back as \<open>bpy.context.object\<close>.
\<close>

definition add_object :: "string \<Rightarrow> real \<Rightarrow> real \<times> real \<Rightarrow> real \<Rightarrow> world \<Rightarrow> handle \<times> world" where
  "add_object obj_name r xy theta w =
     (fresh_handle w,
      w\<lparr>data_objects := data_objects w @ [fresh_handle w],
        calls := calls w @ [AddObject obj_name r xy theta]\<rparr>)"

text \<open>
  Modelled from the spec: \<open>utils.set_layer\<close> is missing. The spec does not list it;
  it leaves \<open>bpy.data.objects\<close> as it is.
\<close>

definition set_layer :: "handle \<Rightarrow> world \<Rightarrow> world" where
  "set_layer obj w = w\<lparr>calls := calls w @ [SetLayer obj]\<rparr>"

text \<open>
  Modelled from the spec: \<open>utils.add_material\<close> is missing. It attaches a material
  to the object just added and leaves \<open>bpy.data.objects\<close> as it is.
\<close>

definition add_material :: "string \<Rightarrow> real list \<Rightarrow> world \<Rightarrow> world" where
  "add_material mat_name rgba w = w\<lparr>calls := calls w @ [AddMaterial mat_name rgba]\<rparr>"

text \<open>
  Modelled from the spec: \<open>utils.delete_object\<close> is missing. It takes the object
  of the given handle out of \<open>bpy.data.objects\<close>.
\<close>

definition delete_object :: "handle \<Rightarrow> world \<Rightarrow> world" where
  "delete_object obj w =
     w\<lparr>data_objects := filter (\<lambda>h. h \<noteq> obj) (data_objects w),
       calls := calls w @ [DeleteObject obj]\<rparr>"

section \<open>add_random_objects\<close>

text \<open>The tables built from the property file at the top of add_random_objects.\<close>

definition color_name_to_rgba :: "properties \<Rightarrow> (string \<times> real list) list" where
  "color_name_to_rgba props =
     fold (\<lambda>(name, rgb) d. AList.update name (map (\<lambda>c. c / 255) rgb @ [1]) d) (colors props) []"

definition material_mapping :: "properties \<Rightarrow> (string \<times> string) list" where
  "material_mapping props = map (\<lambda>(k, v). (v, k)) (materials props)"

definition object_mapping :: "properties \<Rightarrow> (string \<times> string) list" where
  "object_mapping props = map (\<lambda>(k, v). (v, k)) (shapes props)"

definition size_mapping :: "properties \<Rightarrow> (string \<times> real) list" where
  "size_mapping props = sizes props"

text \<open>The three local lists of add_random_objects.\<close>

record locals =
  positions :: "(real \<times> real \<times> real) list"
  placed_objects :: "scene_object list"
  blender_objects :: "handle list"

definition no_locals :: locals where
  "no_locals = \<lparr>positions = [], placed_objects = [], blender_objects = []\<rparr>"

text \<open>
  The loop over \<open>positions\<close> that leaves \<open>dists_good\<close> False at the first recorded
  object the candidate is too close to.
\<close>

fun dists_good :: "args \<Rightarrow> real \<Rightarrow> real \<Rightarrow> real \<Rightarrow> (real \<times> real \<times> real) list \<Rightarrow> bool" where
  "dists_good a x y r [] = True"
| "dists_good a x y r ((xx, yy, rr) # ps) =
     (let dx = x - xx; dy = y - yy; dist = sqrt (dx * dx + dy * dy)
      in if dist - r - rr < min_dist a then False else dists_good a x y r ps)"

text \<open>The two draws \<open>x = random.uniform(-3, 3)\<close> and \<open>y = random.uniform(-3, 3)\<close>.\<close>

definition draw_position :: "world \<Rightarrow> (real \<times> real) result" where
  "draw_position w =
     (case random_uniform (- 3) 3 w of
        Return x w1 \<Rightarrow>
          (case random_uniform (- 3) 3 w1 of
             Return y w2 \<Rightarrow> Return (x, y) w2
           | Raise e w' \<Rightarrow> Raise e w'
           | Starved \<Rightarrow> Starved)
      | Raise e w' \<Rightarrow> Raise e w'
      | Starved \<Rightarrow> Starved)"

text \<open>
  Choosing color and shape. The result is \<open>(obj_name, obj_name_out, color_name, rgba)\<close>.
  Without a restriction table both are drawn from the catalogs; with one, a table entry
  and one of its colors are drawn, and then the shape and the color are looked up.
\<close>

definition choose_color_shape ::
  "env \<Rightarrow> world \<Rightarrow> (string \<times> string \<times> string \<times> real list) result" where
  "choose_color_shape e w =
     (case shape_color_combos e of
        None \<Rightarrow>
          (case random_choice (object_mapping (properties e)) w of
             Return (obj_name, obj_name_out) w1 \<Rightarrow>
               (case random_choice (color_name_to_rgba (properties e)) w1 of
                  Return (color_name, rgba) w2 \<Rightarrow>
                    Return (obj_name, obj_name_out, color_name, rgba) w2
                | Raise err w' \<Rightarrow> Raise err w'
                | Starved \<Rightarrow> Starved)
           | Raise err w' \<Rightarrow> Raise err w'
           | Starved \<Rightarrow> Starved)
      | Some combos \<Rightarrow>
          (case random_choice combos w of
             Return (obj_name_out, color_choices) w1 \<Rightarrow>
               (case random_choice color_choices w1 of
                  Return color_name w2 \<Rightarrow>
                    (case filter (\<lambda>(k, v). v = obj_name_out) (object_mapping (properties e)) of
                       [] \<Rightarrow> Raise (ShapeLookup obj_name_out) w2
                     | (obj_name, v) # rest \<Rightarrow>
                         (case map_of (color_name_to_rgba (properties e)) color_name of
                            None \<Rightarrow> Raise (ColorLookup color_name) w2
                          | Some rgba \<Rightarrow>
                              Return (obj_name, obj_name_out, color_name, rgba) w2))
                | Raise err w' \<Rightarrow> Raise err w'
                | Starved \<Rightarrow> Starved)
           | Raise err w' \<Rightarrow> Raise err w'
           | Starved \<Rightarrow> Starved))"

text \<open>\<open>if obj_name == 'Cube': r /= math.sqrt(2)\<close>\<close>

definition adjust_size :: "string \<Rightarrow> real \<Rightarrow> real" where
  "adjust_size obj_name r = (if obj_name = ''Cube'' then r / sqrt 2 else r)"

text \<open>
  The part of the loop body from the color and shape onwards, for an accepted
  candidate \<open>(x, y)\<close> of drawn size \<open>(size_name, r)\<close>: the cube adjustment of \<open>r\<close>, the
  orientation, add_object, the two appends to \<open>blender_objects\<close> and \<open>positions\<close>,
  the material, and the record appended to \<open>objects\<close>.
\<close>

definition place_object ::
  "env \<Rightarrow> string \<Rightarrow> real \<Rightarrow> real \<Rightarrow> real \<Rightarrow> locals \<Rightarrow> world \<Rightarrow> locals result" where
  "place_object e sname r x y loc w =
     (case choose_color_shape e w of
        Return (obj_name, obj_name_out, color_name, rgba) w1 \<Rightarrow>
          (let r' = adjust_size obj_name r in
           case random_random w1 of
             Return u w2 \<Rightarrow>
               (let theta = 360 * u in
                case add_object obj_name r' (x, y) theta w2 of
                  (obj, w3) \<Rightarrow>
                    (let w4 = set_layer obj w3;
                         loc1 = loc\<lparr>blender_objects := blender_objects loc @ [obj],
                                    positions := positions loc @ [(x, y, r')]\<rparr>
                     in case random_choice (material_mapping (properties e)) w4 of
                          Return (mat_name, mat_name_out) w5 \<Rightarrow>
                            (let w6 = add_material mat_name rgba w5;
                                 location = object_location e obj_name r' (x, y) theta
                             in Return
                                  (loc1\<lparr>placed_objects := placed_objects loc1 @
                                     [\<lparr>shape = obj_name_out, size_name = sname,
                                       material = mat_name_out, coords3d = location,
                                       rotation = theta,
                                       pixel_coords =
                                         get_camera_coords e (camera_location w6) location,
                                       color = color_name\<rparr>]\<rparr>)
                                  w6)
                        | Raise err w' \<Rightarrow> Raise err w'
                        | Starved \<Rightarrow> Starved))
           | Raise err w' \<Rightarrow> Raise err w'
           | Starved \<Rightarrow> Starved)
      | Raise err w' \<Rightarrow> Raise err w'
      | Starved \<Rightarrow> Starved)"

text \<open>The number of draws the random module can still hand out.\<close>

definition draws_left :: "world \<Rightarrow> nat" where
  "draws_left w = length (rng_ints w) + length (rng_units w)"

text \<open>
  Every draw shortens the supply, and the scene-graph helpers leave it alone; this is
  what makes the placement loops below well-founded.
\<close>

lemma random_choice_Return:
  assumes "random_choice seq w = Return v w'"
  shows "v \<in> set seq" and "\<exists>ks. w' = w\<lparr>rng_ints := ks\<rparr>"
proof -
  from assms obtain k ks where "seq \<noteq> []" and "rng_ints w = k # ks"
    and v: "v = seq ! (k mod length seq)" and w': "w' = w\<lparr>rng_ints := ks\<rparr>"
    by (auto simp: random_choice_def split: if_splits list.splits)
  then have "k mod length seq < length seq"
    by simp
  then show "v \<in> set seq"
    unfolding v by (rule nth_mem)
  show "\<exists>ks. w' = w\<lparr>rng_ints := ks\<rparr>"
    using w' by blast
qed

lemma random_random_Return:
  "random_random w = Return u w' \<Longrightarrow> \<exists>us. w' = w\<lparr>rng_units := us\<rparr>"
  by (auto simp: random_random_def split: list.splits)

lemma draw_position_Return:
  "draw_position w = Return xy w' \<Longrightarrow> \<exists>us. w' = w\<lparr>rng_units := us\<rparr>"
  by (auto simp: draw_position_def random_uniform_def random_random_def
      split: result.splits list.splits)

lemma random_choice_draws:
  "random_choice seq w = Return v w' \<Longrightarrow> draws_left w' < draws_left w"
  by (auto simp: random_choice_def draws_left_def split: if_splits list.splits)

lemma random_random_draws:
  "random_random w = Return v w' \<Longrightarrow> draws_left w' < draws_left w"
  by (auto simp: random_random_def draws_left_def split: list.splits)

lemma random_uniform_draws:
  "random_uniform a b w = Return v w' \<Longrightarrow> draws_left w' < draws_left w"
  by (auto simp: random_uniform_def split: result.splits dest: random_random_draws)

lemma draw_position_draws:
  "draw_position w = Return v w' \<Longrightarrow> draws_left w' < draws_left w"
  by (fastforce simp: draw_position_def split: result.splits dest: random_uniform_draws)

lemma draws_left_scene [simp]:
  "draws_left (add_material m c w) = draws_left w"
  "draws_left (set_layer h w) = draws_left w"
  "draws_left (delete_object h w) = draws_left w"
  "draws_left (snd (add_object n r xy t w)) = draws_left w"
  by (simp_all add: draws_left_def add_material_def set_layer_def delete_object_def add_object_def)

lemma draws_left_fold_delete [simp]:
  "draws_left (fold delete_object hs w) = draws_left w"
  by (induction hs arbitrary: w) simp_all

lemma choose_color_shape_draws:
  "choose_color_shape e w = Return v w' \<Longrightarrow> draws_left w' < draws_left w"
  unfolding choose_color_shape_def
  by (auto split: option.splits result.splits list.splits prod.splits dest!: random_choice_draws)

lemma place_object_Return:
  assumes "place_object e sname r x y loc w = Return loc' w'"
  obtains obj_name obj_name_out color_name rgba w1 u w2 mat_name mat_name_out w5
  where "choose_color_shape e w = Return (obj_name, obj_name_out, color_name, rgba) w1"
    and "random_random w1 = Return u w2"
    and "random_choice (material_mapping (properties e))
           (set_layer (fresh_handle w2)
              (snd (add_object obj_name (adjust_size obj_name r) (x, y) (360 * u) w2)))
         = Return (mat_name, mat_name_out) w5"
    and "w' = add_material mat_name rgba w5"
    and "positions loc' = positions loc @ [(x, y, adjust_size obj_name r)]"
    and "blender_objects loc' = blender_objects loc @ [fresh_handle w2]"
    and "placed_objects loc' = placed_objects loc @
           [\<lparr>shape = obj_name_out, size_name = sname, material = mat_name_out,
             coords3d = object_location e obj_name (adjust_size obj_name r) (x, y) (360 * u),
             rotation = 360 * u,
             pixel_coords = get_camera_coords e (camera_location w')
               (object_location e obj_name (adjust_size obj_name r) (x, y) (360 * u)),
             color = color_name\<rparr>]"
  using assms
  by (auto simp: place_object_def Let_def add_object_def split: result.splits prod.splits)

lemma place_object_draws:
  assumes "place_object e sname r x y loc w = Return loc' w'"
  shows "draws_left w' < draws_left w"
proof -
  from assms obtain obj_name obj_name_out color_name rgba w1 u w2 mat_name mat_name_out w5
    where c: "choose_color_shape e w = Return (obj_name, obj_name_out, color_name, rgba) w1"
    and u: "random_random w1 = Return u w2"
    and m: "random_choice (material_mapping (properties e))
           (set_layer (fresh_handle w2)
              (snd (add_object obj_name (adjust_size obj_name r) (x, y) (360 * u) w2)))
         = Return (mat_name, mat_name_out) w5"
    and w': "w' = add_material mat_name rgba w5"
    by (rule place_object_Return)
  have "draws_left w' = draws_left w5"
    by (simp add: w')
  also have "\<dots> < draws_left w2"
    using random_choice_draws [OF m] by simp
  also have "\<dots> < draws_left w1"
    by (rule random_random_draws [OF u])
  also have "\<dots> < draws_left w"
    by (rule choose_color_shape_draws [OF c])
  finally show ?thesis .
qed

text \<open>
  The two loops of add_random_objects. \<open>slots\<close> is the \<open>for i in range(num_objects)\<close>
  loop from index \<open>i\<close> on, with the locals as they stand; \<open>tries\<close> is the
  \<open>while True\<close> loop of slot \<open>i\<close> entered with \<open>num_tries\<close>. When the retries run
  out, every object of \<open>blender_objects\<close> is deleted and add_random_objects is called
  again, which is \<open>slots\<close> from index 0 with fresh locals. The result holds the locals
  at the \<open>return\<close> statement.
\<close>

function slots :: "env \<Rightarrow> nat \<Rightarrow> nat \<Rightarrow> locals \<Rightarrow> world \<Rightarrow> locals result"
  and tries :: "env \<Rightarrow> nat \<Rightarrow> nat \<Rightarrow> string \<Rightarrow> real \<Rightarrow> int \<Rightarrow> locals \<Rightarrow> world \<Rightarrow> locals result" where
  "slots e num_objects i loc w =
     (if i < num_objects then
        (case random_choice (size_mapping (properties e)) w of
           Return (sname, r) w1 \<Rightarrow> tries e num_objects i sname r 0 loc w1
         | Raise err w' \<Rightarrow> Raise err w'
         | Starved \<Rightarrow> Starved)
      else Return loc w)"
| "tries e num_objects i sname r num_tries loc w =
     (if num_tries + 1 > max_retries (args e) then
        slots e num_objects 0 no_locals (fold delete_object (blender_objects loc) w)
      else
        (case draw_position w of
           Return (x, y) w1 \<Rightarrow>
             if dists_good (args e) x y r (positions loc) then
               (case place_object e sname r x y loc w1 of
                  Return loc' w2 \<Rightarrow> slots e num_objects (Suc i) loc' w2
                | Raise err w' \<Rightarrow> Raise err w'
                | Starved \<Rightarrow> Starved)
             else tries e num_objects i sname r (num_tries + 1) loc w1
         | Raise err w' \<Rightarrow> Raise err w'
         | Starved \<Rightarrow> Starved))"
  by pat_completeness auto
termination
  apply (relation "measures [\<lambda>p. case p of Inl (e, n, i, loc, w) \<Rightarrow> draws_left w
                                      | Inr (e, n, i, sname, r, k, loc, w) \<Rightarrow> draws_left w,
        \<lambda>p. case p of Inl _ \<Rightarrow> 0 | Inr _ \<Rightarrow> Suc 0]")
  apply (auto dest!: random_choice_draws draw_position_draws place_object_draws)
  done

text \<open>
  add_random_objects proper returns the pair \<open>(objects, blender_objects)\<close>;
  \<open>add_random_objects_locals\<close> also keeps \<open>positions\<close>, which the function drops.
  The camera argument is the camera of the world. \<open>num_objects\<close> is a natural
  number (for a negative one \<open>range(num_objects)\<close> is as empty as for 0), and the
  restarts are not limited by the recursion depth of the interpreter.
\<close>

definition add_random_objects_locals :: "nat \<Rightarrow> env \<Rightarrow> world \<Rightarrow> locals result" where
  "add_random_objects_locals num_objects e w = slots e num_objects 0 no_locals w"

definition add_random_objects ::
  "nat \<Rightarrow> env \<Rightarrow> world \<Rightarrow> (scene_object list \<times> handle list) result" where
  "add_random_objects num_objects e w =
     (case add_random_objects_locals num_objects e w of
        Return loc w' \<Rightarrow> Return (placed_objects loc, blender_objects loc) w'
      | Raise err w' \<Rightarrow> Raise err w'
      | Starved \<Rightarrow> Starved)"

section \<open>render_scene\<close>

text \<open>\<open>rand(L)\<close> is \<open>2.0 * L * (random.random() - 0.5)\<close>.\<close>

definition rand :: "real \<Rightarrow> world \<Rightarrow> real result" where
  "rand L w =
     (case random_random w of
        Return u w' \<Rightarrow> Return (2 * L * (u - 1/2)) w'
      | Raise err w' \<Rightarrow> Raise err w'
      | Starved \<Rightarrow> Starved)"

text \<open>\<open>for i in range(3): location[i] += rand(L)\<close>\<close>

definition jitter :: "real \<Rightarrow> vec3 \<Rightarrow> world \<Rightarrow> vec3 result" where
  "jitter L location w =
     (case location of (a, b, c) \<Rightarrow>
        case rand L w of
          Return da w1 \<Rightarrow>
            (case rand L w1 of
               Return db w2 \<Rightarrow>
                 (case rand L w2 of
                    Return dc w3 \<Rightarrow> Return (a + da, b + db, c + dc) w3
                  | Raise err w' \<Rightarrow> Raise err w'
                  | Starved \<Rightarrow> Starved)
             | Raise err w' \<Rightarrow> Raise err w'
             | Starved \<Rightarrow> Starved)
        | Raise err w' \<Rightarrow> Raise err w'
        | Starved \<Rightarrow> Starved)"

text \<open>The jitter of the three lamps, in the order key, back, fill.\<close>

definition jitter_key :: "args \<Rightarrow> world \<Rightarrow> unit result" where
  "jitter_key a w =
     (if key_light_jitter a > 0 then
        (case jitter (key_light_jitter a) (lamp_key_location w) w of
           Return location w' \<Rightarrow> Return () (w'\<lparr>lamp_key_location := location\<rparr>)
         | Raise err w' \<Rightarrow> Raise err w'
         | Starved \<Rightarrow> Starved)
      else Return () w)"

definition jitter_back :: "args \<Rightarrow> world \<Rightarrow> unit result" where
  "jitter_back a w =
     (if back_light_jitter a > 0 then
        (case jitter (back_light_jitter a) (lamp_back_location w) w of
           Return location w' \<Rightarrow> Return () (w'\<lparr>lamp_back_location := location\<rparr>)
         | Raise err w' \<Rightarrow> Raise err w'
         | Starved \<Rightarrow> Starved)
      else Return () w)"

definition jitter_fill :: "args \<Rightarrow> world \<Rightarrow> unit result" where
  "jitter_fill a w =
     (if fill_light_jitter a > 0 then
        (case jitter (fill_light_jitter a) (lamp_fill_location w) w of
           Return location w' \<Rightarrow> Return () (w'\<lparr>lamp_fill_location := location\<rparr>)
         | Raise err w' \<Rightarrow> Raise err w'
         | Starved \<Rightarrow> Starved)
      else Return () w)"

definition jitter_lamps :: "args \<Rightarrow> world \<Rightarrow> unit result" where
  "jitter_lamps a w =
     (case jitter_key a w of
        Return u w1 \<Rightarrow>
          (case jitter_back a w1 of
             Return u w2 \<Rightarrow> jitter_fill a w2
           | Raise err w' \<Rightarrow> Raise err w'
           | Starved \<Rightarrow> Starved)
      | Raise err w' \<Rightarrow> Raise err w'
      | Starved \<Rightarrow> Starved)"

text \<open>
  The \<open>while True\<close> loop around \<open>bpy.ops.render.render\<close>: an attempt that raises is
  printed and repeated, the first one that returns ends the loop.
\<close>

fun render_attempts :: "bool list \<Rightarrow> bool list option" where
  "render_attempts [] = None"
| "render_attempts (ok # oks) = (if ok then Some oks else render_attempts oks)"

definition render :: "world \<Rightarrow> unit result" where
  "render w =
     (case render_attempts (render_ok w) of
        None \<Rightarrow> Starved
      | Some oks \<Rightarrow> Return () (w\<lparr>render_ok := oks\<rparr>))"

text \<open>
  One entry of \<open>out_data['frames']\<close>: the number put into the image file name, the
  \<open>rotation\<close> entry, and the location of the camera when the frame was rendered (the
  transform matrix is Blender's reading of it).
\<close>

record frame =
  file_index :: int
  frame_rotation :: real
  camera_at :: vec3

text \<open>The calls render_scene makes to functions of the script and to the renderer.\<close>

datatype call = Call_add_random_objects nat | Call_compute_all_relationships | Call_render int

text \<open>
  What the camera loops carry along: the frames appended so far, the local variable
  \<open>objects\<close> (None until add_random_objects has returned), and the calls made so far;
  \<open>Call_add_random_objects\<close> is recorded with the value of \<open>len(bpy.data.objects)\<close> that
  the test before it has read.
\<close>

record progress =
  frames :: "frame list"
  objects_var :: "scene_object list option"
  module_calls :: "call list"

text \<open>The body of the inner loop, for tier \<open>j\<close> with polar angle \<open>phi\<close> and index \<open>i\<close>.\<close>

definition camera_step ::
  "env \<Rightarrow> nat \<Rightarrow> real \<Rightarrow> nat \<Rightarrow> real \<Rightarrow> nat \<Rightarrow> progress \<Rightarrow> world \<Rightarrow> progress result" where
  "camera_step e num_objects stepsize j phi i st w =
     (let index = num_cams (args e) div 8 * int j + int i;
          azimuth = (2 * real i - 1) / real_of_int (num_cams (args e)) * 8 * pi;
          w1 = w\<lparr>camera_location :=
                   (10 * cos azimuth * sin phi, 10 * sin azimuth * sin phi,
                    snd (snd (camera_location w)))\<rparr>
      in case (if length (data_objects w1) = 7 then
                 (case add_random_objects num_objects e w1 of
                    Return (objs, bobjs) w2 \<Rightarrow>
                      Return (st\<lparr>objects_var := Some objs,
                                 module_calls := module_calls st @
                                   [Call_add_random_objects (length (data_objects w1))]\<rparr>) w2
                  | Raise err w' \<Rightarrow> Raise err w'
                  | Starved \<Rightarrow> Starved)
               else Return st w1) of
           Return st1 w2 \<Rightarrow>
             (case render w2 of
                Return u w3 \<Rightarrow>
                  Return (st1\<lparr>frames := frames st1 @
                                 [\<lparr>file_index = index, frame_rotation = stepsize * pi / 180,
                                   camera_at = camera_location w3\<rparr>],
                              module_calls := module_calls st1 @ [Call_render index]\<rparr>) w3
              | Raise err w' \<Rightarrow> Raise err w'
              | Starved \<Rightarrow> Starved)
         | Raise err w' \<Rightarrow> Raise err w'
         | Starved \<Rightarrow> Starved)"

text \<open>\<open>for i in range(args.num_cams//num_heights)\<close>, over the indices still to come.\<close>

fun inner_loop ::
  "env \<Rightarrow> nat \<Rightarrow> real \<Rightarrow> nat \<Rightarrow> real \<Rightarrow> nat list \<Rightarrow> progress \<Rightarrow> world \<Rightarrow> progress result" where
  "inner_loop e num_objects stepsize j phi [] st w = Return st w"
| "inner_loop e num_objects stepsize j phi (i # is) st w =
     (case camera_step e num_objects stepsize j phi i st w of
        Return st' w' \<Rightarrow> inner_loop e num_objects stepsize j phi is st' w'
      | Raise err w' \<Rightarrow> Raise err w'
      | Starved \<Rightarrow> Starved)"

text \<open>
  \<open>for j in range(num_heights)\<close>, over the tiers still to come: the polar angle, the
  height of the camera, then the inner loop.
\<close>

fun outer_loop ::
  "env \<Rightarrow> nat \<Rightarrow> real \<Rightarrow> nat list \<Rightarrow> progress \<Rightarrow> world \<Rightarrow> progress result" where
  "outer_loop e num_objects stepsize [] st w = Return st w"
| "outer_loop e num_objects stepsize (j # js) st w =
     (let phi = pi * 3 / 10 / 8 * (real j + 1);
          w1 = w\<lparr>camera_location :=
                   (fst (camera_location w), fst (snd (camera_location w)), 10 * cos phi)\<rparr>
      in case inner_loop e num_objects stepsize j phi
                [0..<nat (num_cams (args e) div 8)] st w1 of
           Return st' w' \<Rightarrow> outer_loop e num_objects stepsize js st' w'
         | Raise err w' \<Rightarrow> Raise err w'
         | Starved \<Rightarrow> Starved)"

text \<open>
  render_scene from the lamp jitter on; \<open>w\<close> is the world once the base scene and the
  materials are loaded. The render settings, the unused \<open>scene_struct\<close> and the
  writing of the files have no part in what follows and are left out. The result is
  the state of the loops at the end; \<open>frames\<close> is what goes into transforms.json.
\<close>

definition render_scene :: "env \<Rightarrow> nat \<Rightarrow> world \<Rightarrow> progress result" where
  "render_scene e num_objects w =
     (case jitter_lamps (args e) w of
        Return u w1 \<Rightarrow>
          if num_cams (args e) = 0 then Raise ZeroDivision w1
          else outer_loop e num_objects (360 / real_of_int (num_cams (args e)) * 8) [0..<8]
                 \<lparr>frames = [], objects_var = None, module_calls = []\<rparr> w1
      | Raise err w' \<Rightarrow> Raise err w'
      | Starved \<Rightarrow> Starved)"

section \<open>Notions the properties are stated with\<close>

text \<open>The value of a run that returned.\<close>

definition returned :: "'a result \<Rightarrow> 'a option" where
  "returned res = (case res of Return v w \<Rightarrow> Some v | Raise err w \<Rightarrow> None | Starved \<Rightarrow> None)"

text \<open>
  A sequence of scene-graph calls in which every add_object is followed at once by the
  set_layer and the add_material of the same slot; deletions may stand between slots.
\<close>

fun whole_slots :: "event list \<Rightarrow> bool" where
  "whole_slots [] = True"
| "whole_slots (AddObject obj_name r xy theta # SetLayer obj # AddMaterial mat_name rgba # evs) =
     whole_slots evs"
| "whole_slots (DeleteObject obj # evs) = whole_slots evs"
| "whole_slots evs = False"

text \<open>
  The calls that placed exactly the objects \<open>hs\<close>, in this order: one add_object,
  set_layer and add_material for each of them, the layer set on that object, and no
  other call.
\<close>

fun slot_triples :: "handle list \<Rightarrow> event list \<Rightarrow> bool" where
  "slot_triples [] [] = True"
| "slot_triples (h # hs) (AddObject obj_name r xy theta # SetLayer obj # AddMaterial mat_name rgba # evs) =
     (h = obj \<and> slot_triples hs evs)"
| "slot_triples hs evs = False"

text \<open>
  The calls of add_random_objects among the calls of a run of render_scene, and the
  number of times it has run compute_all_relationships.
\<close>

fun is_placement :: "call \<Rightarrow> bool" where
  "is_placement (Call_add_random_objects k) = True"
| "is_placement c = False"

definition relationship_runs :: "progress \<Rightarrow> nat" where
  "relationship_runs st = count_list (module_calls st) Call_compute_all_relationships"

text \<open>
  The objects of \<open>blender_objects\<close> are the last of the scene, after the objects \<open>ds\<close>
  that were there when add_random_objects was called, and \<open>i \<le> n\<close> of them are placed.
\<close>

definition placed_in_scene :: "handle list \<Rightarrow> nat \<Rightarrow> nat \<Rightarrow> locals \<Rightarrow> world \<Rightarrow> bool" where
  "placed_in_scene ds n i loc w \<longleftrightarrow>
     data_objects w = ds @ blender_objects loc \<and> set ds \<inter> set (blender_objects loc) = {} \<and>
     length (blender_objects loc) = i \<and> i \<le> n"

text \<open>
  The scene graph during a call of add_random_objects that started in world \<open>w0\<close>:
  the objects of \<open>blender_objects\<close> are the last of the scene, and the calls made since
  the start are whole slots of the attempts given up, then the calls that placed
  \<open>blender_objects\<close>.
\<close>

definition slots_in_scene :: "world \<Rightarrow> nat \<Rightarrow> nat \<Rightarrow> locals \<Rightarrow> world \<Rightarrow> bool" where
  "slots_in_scene w0 n i loc w \<longleftrightarrow>
     placed_in_scene (data_objects w0) n i loc w \<and>
     (\<exists>old cur. calls w = calls w0 @ old @ cur \<and> whole_slots old \<and>
        slot_triples (blender_objects loc) cur)"

text \<open>
  What it takes for a statement \<open>I st w\<close> about the state of the camera loops to hold
  at their end: moving the camera keeps it, and so does one pass of the loop body.
\<close>

definition loop_preserved ::
  "env \<Rightarrow> nat \<Rightarrow> real \<Rightarrow> (progress \<Rightarrow> world \<Rightarrow> bool) \<Rightarrow> bool" where
  "loop_preserved e n s I \<longleftrightarrow>
     (\<forall>st w location. I st w \<longrightarrow> I st (w\<lparr>camera_location := location\<rparr>)) \<and>
     (\<forall>j phi i st w st' w'. I st w \<longrightarrow> i < nat (num_cams (args e) div 8) \<longrightarrow>
        camera_step e n s j phi i st w = Return st' w' \<longrightarrow> I st' w')"

text \<open>
  The state of the camera loops of a run for \<open>n\<close> objects that entered them in world
  \<open>w0\<close>: add_random_objects was only called on a scene of 7 objects; until it is
  called, \<open>objects\<close> is None and the scene graph is as the loops found it; for
  \<open>n > 0\<close> it has been called at most once and the scene then holds \<open>7 + n\<close> objects;
  for \<open>n = 0\<close> the scene graph is untouched; and it is never called when the loops
  found a scene of another size than 7.
\<close>

definition placed_once :: "nat \<Rightarrow> world \<Rightarrow> progress \<Rightarrow> world \<Rightarrow> bool" where
  "placed_once n w0 st w \<longleftrightarrow>
     (\<forall>k. Call_add_random_objects k \<in> set (module_calls st) \<longrightarrow> k = 7) \<and>
     (filter is_placement (module_calls st) = [] \<longrightarrow>
        objects_var st = None \<and> data_objects w = data_objects w0 \<and> calls w = calls w0) \<and>
     (0 < n \<longrightarrow> length (filter is_placement (module_calls st)) \<le> 1 \<and>
        (filter is_placement (module_calls st) \<noteq> [] \<longrightarrow> length (data_objects w) = 7 + n)) \<and>
     (n = 0 \<longrightarrow> data_objects w = data_objects w0 \<and> calls w = calls w0) \<and>
     (length (data_objects w0) \<noteq> 7 \<longrightarrow> filter is_placement (module_calls st) = [])"

text \<open>
  The quantity the spacing claims speak of, for two entries \<open>(x, y, r)\<close> of
  \<open>positions\<close>: the planar distance of the centres minus the two radii.
  \<open>separated d ps\<close> says that any two distinct entries of \<open>ps\<close> have at least \<open>d\<close> of it.
\<close>

definition clearance :: "real \<times> real \<times> real \<Rightarrow> real \<times> real \<times> real \<Rightarrow> real" where
  "clearance p q =
     (case p of (x, y, r) \<Rightarrow> case q of (xx, yy, rr) \<Rightarrow>
        sqrt ((x - xx) * (x - xx) + (y - yy) * (y - yy)) - r - rr)"

definition separated :: "real \<Rightarrow> (real \<times> real \<times> real) list \<Rightarrow> bool" where
  "separated d ps \<longleftrightarrow>
     (\<forall>i < length ps. \<forall>j < length ps. i \<noteq> j \<longrightarrow> d \<le> clearance (ps ! i) (ps ! j))"

text \<open>
  What it takes for a statement \<open>J i loc w\<close> about the loop index, the locals and the
  world to hold whenever the loops are entered: it does not depend on the random
  supply, it holds again after a restart, and one placed object carries it from
  \<open>i\<close> to \<open>i + 1\<close>.
\<close>

definition preserved :: "env \<Rightarrow> nat \<Rightarrow> (nat \<Rightarrow> locals \<Rightarrow> world \<Rightarrow> bool) \<Rightarrow> bool" where
  "preserved e n J \<longleftrightarrow>
     (\<forall>i loc w ks. J i loc w \<longrightarrow> J i loc (w\<lparr>rng_ints := ks\<rparr>)) \<and>
     (\<forall>i loc w us. J i loc w \<longrightarrow> J i loc (w\<lparr>rng_units := us\<rparr>)) \<and>
     (\<forall>i loc w. J i loc w \<longrightarrow> J 0 no_locals (fold delete_object (blender_objects loc) w)) \<and>
     (\<forall>i loc sname r x y w loc' w'.
        J i loc w \<longrightarrow> i < n \<longrightarrow> (sname, r) \<in> set (size_mapping (properties e)) \<longrightarrow>
        dists_good (args e) x y r (positions loc) \<longrightarrow>
        place_object e sname r x y loc w = Return loc' w' \<longrightarrow> J (Suc i) loc' w')"

text \<open>
  The same for the runs that raise: \<open>R err w\<close> holds of every exception the loops let
  out, when it holds where the size choice and the placing of one object raise.
\<close>

definition raises_ok ::
  "env \<Rightarrow> nat \<Rightarrow> (nat \<Rightarrow> locals \<Rightarrow> world \<Rightarrow> bool) \<Rightarrow> (error \<Rightarrow> world \<Rightarrow> bool) \<Rightarrow> bool" where
  "raises_ok e n J R \<longleftrightarrow>
     (\<forall>i loc w err w'. J i loc w \<longrightarrow>
        random_choice (size_mapping (properties e)) w = Raise err w' \<longrightarrow> R err w') \<and>
     (\<forall>i loc sname r x y w err w'. J i loc w \<longrightarrow> i < n \<longrightarrow>
        place_object e sname r x y loc w = Raise err w' \<longrightarrow> R err w')"

section \<open>Concrete inputs\<close>

text \<open>A scene of two objects one unit apart along the first axis.\<close>

definition two_object_scene :: scene_struct where
  "two_object_scene =
     \<lparr>split = ''new'', image_index = 0, image_filename = None,
      objects = [\<lparr>shape = ''cube'', size_name = ''large'', material = ''rubber'',
                  coords3d = (0, 0, 1), rotation = 0, pixel_coords = (0, 0), color = ''red''\<rparr>,
                 \<lparr>shape = ''sphere'', size_name = ''small'', material = ''metal'',
                  coords3d = (1, 0, 1), rotation = 90, pixel_coords = (5, 5), color = ''blue''\<rparr>],
      directions = [(''right'', (1, 0, 0)), (''above'', (0, 0, 1))]\<rparr>"

text \<open>
  A run of add_random_objects for two objects with a restriction table and
  \<open>max_retries = 1\<close>. The draws make the first candidate of the second slot fall on
  the first object, so the retries run out, the first object is deleted and both slots
  are placed again. \<open>example_locals\<close> and \<open>example_world_after\<close> are the locals and the
  world at the return.
\<close>

definition example_args :: args where
  "example_args =
     \<lparr>min_dist = 1/4, margin = 3, max_retries = 1, num_cams = 8,
      key_light_jitter = 0, back_light_jitter = 0, fill_light_jitter = 0\<rparr>"

definition example_properties :: properties where
  "example_properties =
     \<lparr>colors = [(''red'', [255, 0, 0]), (''blue'', [0, 0, 255])],
      materials = [(''rubber'', ''Rubber'')],
      shapes = [(''cube'', ''Cube''), (''sphere'', ''Sphere'')],
      sizes = [(''large'', 7/10), (''small'', 7/20)]\<rparr>"

definition example_env :: env where
  "example_env =
     \<lparr>args = example_args, properties = example_properties,
      shape_color_combos = Some [(''cube'', [''red'']), (''sphere'', [''blue''])],
      object_location = (\<lambda>obj_name r xy theta. (fst xy, snd xy, r)),
      get_camera_coords = (\<lambda>cam loc. (0, 0))\<rparr>"

definition example_world :: world where
  "example_world =
     \<lparr>rng_ints = [0, 0, 0, 0, 1, 0, 0, 0, 0, 1, 1, 0, 0],
      rng_units = [1/2, 1/2, 0, 1/2, 1/2, 1/2, 1/2, 0, 5/6, 1/2, 1/4],
      render_ok = [True, False, True, True, True, True, True, True, True],
      data_objects = [0, 1, 2, 3, 4, 5, 6],
      calls = [],
      camera_location = (0, 0, 0),
      lamp_key_location = (1, 1, 1),
      lamp_back_location = (2, 2, 2),
      lamp_fill_location = (3, 3, 3)\<rparr>"

definition example_locals :: locals where
  "example_locals =
     \<lparr>positions = [(0, 0, 7 / (10 * sqrt 2)), (2, 0, 7 / 20)],
      placed_objects =
        [\<lparr>shape = ''cube'', size_name = ''large'', material = ''rubber'',
          coords3d = (0, 0, 7 / (10 * sqrt 2)), rotation = 0,
          pixel_coords = (0, 0), color = ''red''\<rparr>,
         \<lparr>shape = ''sphere'', size_name = ''small'', material = ''rubber'',
          coords3d = (2, 0, 7 / 20), rotation = 90,
          pixel_coords = (0, 0), color = ''blue''\<rparr>],
      blender_objects = [7, 8]\<rparr>"

definition example_world_after :: world where
  "example_world_after =
     example_world
      \<lparr>rng_ints := [], rng_units := [],
       data_objects := [0, 1, 2, 3, 4, 5, 6, 7, 8],
       calls :=
         [AddObject ''Cube'' (7 / (10 * sqrt 2)) (0, 0) 0, SetLayer 7,
          AddMaterial ''Rubber'' [1, 0, 0, 1], DeleteObject 7,
          AddObject ''Cube'' (7 / (10 * sqrt 2)) (0, 0) 0, SetLayer 7,
          AddMaterial ''Rubber'' [1, 0, 0, 1],
          AddObject ''Sphere'' (7 / 20) (2, 0) 90, SetLayer 8,
          AddMaterial ''Rubber'' [0, 0, 1, 1]]\<rparr>"

text \<open>
  A catalog with a negative scale factor and a single shape whose model is named
  'Cube'; both objects are drawn at the origin.
\<close>

definition mirrored_env :: env where
  "mirrored_env =
     \<lparr>args = \<lparr>min_dist = 1/4, margin = 2/5, max_retries = 50, num_cams = 8,
              key_light_jitter = 0, back_light_jitter = 0, fill_light_jitter = 0\<rparr>,
      properties =
        \<lparr>colors = [(''red'', [255, 0, 0])],
         materials = [(''rubber'', ''Rubber'')],
         shapes = [(''cube'', ''Cube'')],
         sizes = [(''large'', 1), (''mirrored'', - 1)]\<rparr>,
      shape_color_combos = None,
      object_location = (\<lambda>obj_name r xy theta. (fst xy, snd xy, r)),
      get_camera_coords = (\<lambda>cam loc. (0, 0))\<rparr>"

definition mirrored_world :: world where
  "mirrored_world =
     example_world\<lparr>rng_ints := [0, 0, 0, 0, 1, 0, 0, 0],
                   rng_units := [1/2, 1/2, 0, 1/2, 1/2, 0]\<rparr>"

text \<open>
  The example run with a restriction table that names a shape, 'cone', which the shape
  catalog does not have; the second slot draws it.
\<close>

definition broken_env :: env where
  "broken_env =
     example_env\<lparr>shape_color_combos := Some [(''cube'', [''red'']), (''cone'', [''red''])]\<rparr>"

definition broken_world :: world where
  "broken_world =
     example_world\<lparr>rng_ints := [0, 0, 0, 0, 1, 1, 0], rng_units := [1/2, 1/2, 0, 5/6, 1/2]\<rparr>"

definition broken_world_after :: world where
  "broken_world_after =
     example_world
      \<lparr>rng_ints := [], rng_units := [],
       data_objects := [0, 1, 2, 3, 4, 5, 6, 7],
       calls :=
         [AddObject ''Cube'' (7 / (10 * sqrt 2)) (0, 0) 0, SetLayer 7,
          AddMaterial ''Rubber'' [1, 0, 0, 1]]\<rparr>"

text \<open>The local lists of that run when its second slot begins.\<close>

definition broken_locals :: locals where
  "broken_locals =
     \<lparr>positions = [(0, 0, 7 / (10 * sqrt 2))],
      placed_objects =
        [\<lparr>shape = ''cube'', size_name = ''large'', material = ''rubber'',
          coords3d = (0, 0, 7 / (10 * sqrt 2)), rotation = 0,
          pixel_coords = (0, 0), color = ''red''\<rparr>],
      blender_objects = [7]\<rparr>"

text \<open>The example with \<open>num_cams = 1\<close>, the default of the argument parser.\<close>

definition single_camera_env :: env where
  "single_camera_env = example_env\<lparr>args := example_args\<lparr>num_cams := 1\<rparr>\<rparr>"

section \<open>Properties of compute_all_relationships\<close>

lemma set_fold_relate_step:
  "set (fold (relate_step eps v obj1) ps acc) =
     set acc \<union> {j. \<exists>obj2. (j, obj2) \<in> set ps \<and> obj1 \<noteq> obj2 \<and>
                     dot3 (diff3 (coords3d obj2) (coords3d obj1)) v > eps}"
proof (induction ps arbitrary: acc)
  case Nil
  show ?case by simp
next
  case (Cons p ps)
  obtain j obj2 where p: "p = (j, obj2)" by (cases p)
  show ?case
    unfolding fold_simps Cons.IH
    by (auto simp: p relate_step_def)
qed

lemma distinct_fold_relate_step:
  "distinct acc \<Longrightarrow> distinct (fold (relate_step eps v obj1) ps acc)"
proof (induction ps arbitrary: acc)
  case Nil
  then show ?case by simp
next
  case (Cons p ps)
  have "distinct (relate_step eps v obj1 p acc)"
    using Cons.prems by (cases p) (simp add: relate_step_def)
  then show ?case
    by (simp add: Cons.IH)
qed

lemma dot3_diff3_self: "dot3 (diff3 c c) v = 0"
  by (cases c, cases v) (simp add: dot3_def diff3_def)

lemma set_related_of:
  assumes "0 \<le> eps" and "i < length objs"
  shows "set (related_of eps v objs (objs ! i)) =
           {j. j < length objs \<and> i \<noteq> j \<and>
               dot3 (diff3 (coords3d (objs ! j)) (coords3d (objs ! i))) v > eps}"
proof -
  have eq_zero: "dot3 (diff3 (coords3d (objs ! j)) (coords3d (objs ! i))) v = 0"
    if "objs ! i = objs ! j" for j
    using that by (simp add: dot3_diff3_self)
  show ?thesis
    unfolding related_of_def set_fold_relate_step
    using assms(1) eq_zero
    by (auto simp: in_set_enumerate_eq)
qed

lemma relate_direction_pair:
  "relate_direction eps objs (name, direction_vec) acc =
     (if name = ''above'' \<or> name = ''below'' then acc
      else AList.update name
             (map (\<lambda>obj1. sort (related_of eps direction_vec objs obj1)) objs) acc)"
  by (simp add: relate_direction_def)

lemma map_of_fold_relate_direction:
  assumes "distinct (map fst ds)" and "map_of ds name = Some v"
    and "name \<noteq> ''above''" and "name \<noteq> ''below''"
  shows "map_of (fold (relate_direction eps objs) ds acc) name =
           Some (map (\<lambda>obj1. sort (related_of eps v objs obj1)) objs)"
  using assms(1,2)
proof (induction ds arbitrary: acc)
  case Nil
  then show ?case by simp
next
  case (Cons d ds)
  obtain n w where d: "d = (n, w)" by (cases d)
  show ?case
  proof (cases "n = name")
    case True
    have notin: "name \<notin> fst ` set ds"
      using Cons.prems(1) True by (simp add: d)
    have keep: "map_of (fold (relate_direction eps objs) ds acc') name = map_of acc' name"
      if "name \<notin> fst ` set ds" for acc' ds
      using that
    proof (induction ds arbitrary: acc')
      case Nil
      show ?case by simp
    next
      case (Cons e es)
      then show ?case
        by (cases e) (auto simp: relate_direction_pair update_conv')
    qed
    have "w = v"
      using Cons.prems(2) True by (simp add: d)
    then show ?thesis
      using True assms(3,4) keep [OF notin]
      by (simp add: d relate_direction_pair update_conv')
  next
    case False
    then have "map_of ds name = Some v" and "distinct (map fst ds)"
      using Cons.prems by (simp_all add: d)
    then show ?thesis
      using Cons.IH by simp
  qed
qed

lemma vertical_not_in_fold_relate_direction:
  assumes "name = ''above'' \<or> name = ''below''"
  shows "map_of (fold (relate_direction eps objs) ds acc) name = map_of acc name"
proof (induction ds arbitrary: acc)
  case Nil
  show ?case by simp
next
  case (Cons d ds)
  show ?case
    using assms by (cases d) (auto simp: Cons.IH relate_direction_pair update_conv')
qed

lemma dot3_diff3_components:
  "dot3 (diff3 (xj, yj, zj) (xi, yi, zi)) (v0, v1, v2) =
     (xj - xi) * v0 + (yj - yi) * v1 + (zj - zi) * v2"
  by (simp add: dot3_def diff3_def)

lemma dot3_diff3_related:
  "dot3 (diff3 cj ci) (v0, v1, v2) > eps \<longleftrightarrow>
     (\<exists>xi yi zi xj yj zj. ci = (xi, yi, zi) \<and> cj = (xj, yj, zj) \<and>
        (xj - xi) * v0 + (yj - yi) * v1 + (zj - zi) * v2 > eps)"
  by (cases ci, cases cj) (simp add: dot3_diff3_components)

text \<open>
  C2. For a direction name other than 'above' and 'below', with direction vector
  \<open>(v0, v1, v2)\<close>, and \<open>eps \<ge> 0\<close>, the table holds one entry per object; \<open>j\<close> is in
  \<open>output[name][i]\<close> exactly when \<open>i \<noteq> j\<close> and, for object \<open>i\<close> at \<open>(xi, yi, zi)\<close> and
  object \<open>j\<close> at \<open>(xj, yj, zj)\<close>, the dot product
  \<open>(xj - xi) * v0 + (yj - yi) * v1 + (zj - zi) * v2\<close> is greater than \<open>eps\<close>. So \<open>i\<close>
  is never in its own entry, and each entry is a strictly ascending list of indices.
  The names 'above' and 'below' get no entry.
\<close>

theorem compute_all_relationships_spec:
  assumes "0 \<le> eps"
    and "distinct (map fst (directions scene))"
    and "map_of (directions scene) name = Some (v0, v1, v2)"
    and "name \<noteq> ''above''" and "name \<noteq> ''below''"
  shows "\<exists>rel. map_of (compute_all_relationships scene eps) name = Some rel \<and>
           length rel = length (objects scene) \<and>
           (\<forall>i < length (objects scene).
              sorted (rel ! i) \<and> distinct (rel ! i) \<and> i \<notin> set (rel ! i) \<and>
              (\<forall>j. j \<in> set (rel ! i) \<longleftrightarrow>
                 j < length (objects scene) \<and> i \<noteq> j \<and>
                 (\<exists>xi yi zi xj yj zj.
                    coords3d (objects scene ! i) = (xi, yi, zi) \<and>
                    coords3d (objects scene ! j) = (xj, yj, zj) \<and>
                    (xj - xi) * v0 + (yj - yi) * v1 + (zj - zi) * v2 > eps))) \<and>
           map_of (compute_all_relationships scene eps) ''above'' = None \<and>
           map_of (compute_all_relationships scene eps) ''below'' = None"
proof -
  let ?objs = "objects scene"
  let ?v = "(v0, v1, v2)"
  let ?rel = "map (\<lambda>obj1. sort (related_of eps ?v ?objs obj1)) ?objs"
  have lookup: "map_of (compute_all_relationships scene eps) name = Some ?rel"
    unfolding compute_all_relationships_def
    by (rule map_of_fold_relate_direction [OF assms(2,3,4,5)])
  have entry: "sorted (?rel ! i) \<and> distinct (?rel ! i) \<and> i \<notin> set (?rel ! i) \<and>
      (\<forall>j. j \<in> set (?rel ! i) \<longleftrightarrow>
         j < length ?objs \<and> i \<noteq> j \<and>
         (\<exists>xi yi zi xj yj zj.
            coords3d (?objs ! i) = (xi, yi, zi) \<and> coords3d (?objs ! j) = (xj, yj, zj) \<and>
            (xj - xi) * v0 + (yj - yi) * v1 + (zj - zi) * v2 > eps))"
    if "i < length ?objs" for i
  proof -
    have "distinct (related_of eps ?v ?objs (?objs ! i))"
      unfolding related_of_def by (rule distinct_fold_relate_step) simp
    then show ?thesis
      using that set_related_of [OF assms(1) that, of ?v]
      by (simp add: dot3_diff3_related)
  qed
  have vertical: "map_of (compute_all_relationships scene eps) n = None"
    if "n = ''above'' \<or> n = ''below''" for n
    unfolding compute_all_relationships_def
    using vertical_not_in_fold_relate_direction [OF that] by simp
  show ?thesis
    using lookup entry vertical by simp
qed

theorem compute_all_relationships_spec_witness:
  "(0::real) \<le> 1/5 \<and>
   (\<exists>rel. map_of (compute_all_relationships two_object_scene (1/5)) ''right'' = Some rel \<and>
      length rel = 2 \<and> sorted (rel ! 0) \<and> 0 \<notin> set (rel ! 0) \<and> 1 \<in> set (rel ! 0) \<and>
      0 \<notin> set (rel ! 1)) \<and>
   (1 - 0) * 1 + (0 - 0) * 0 + (1 - 1) * 0 > (1/5 :: real)"
proof -
  have "\<exists>rel. map_of (compute_all_relationships two_object_scene (1/5)) ''right'' = Some rel \<and>
           length rel = length (objects two_object_scene) \<and>
           (\<forall>i < length (objects two_object_scene).
              sorted (rel ! i) \<and> distinct (rel ! i) \<and> i \<notin> set (rel ! i) \<and>
              (\<forall>j. j \<in> set (rel ! i) \<longleftrightarrow>
                 j < length (objects two_object_scene) \<and> i \<noteq> j \<and>
                 (\<exists>xi yi zi xj yj zj.
                    coords3d (objects two_object_scene ! i) = (xi, yi, zi) \<and>
                    coords3d (objects two_object_scene ! j) = (xj, yj, zj) \<and>
                    (xj - xi) * 1 + (yj - yi) * 0 + (zj - zi) * 0 > 1/5))) \<and>
           map_of (compute_all_relationships two_object_scene (1/5)) ''above'' = None \<and>
           map_of (compute_all_relationships two_object_scene (1/5)) ''below'' = None"
    by (rule compute_all_relationships_spec) (simp_all add: two_object_scene_def)
  then obtain rel where all:
    "map_of (compute_all_relationships two_object_scene (1/5)) ''right'' = Some rel \<and>
     length rel = length (objects two_object_scene) \<and>
     (\<forall>i < length (objects two_object_scene).
        sorted (rel ! i) \<and> distinct (rel ! i) \<and> i \<notin> set (rel ! i) \<and>
        (\<forall>j. j \<in> set (rel ! i) \<longleftrightarrow>
           j < length (objects two_object_scene) \<and> i \<noteq> j \<and>
           (\<exists>xi yi zi xj yj zj.
              coords3d (objects two_object_scene ! i) = (xi, yi, zi) \<and>
              coords3d (objects two_object_scene ! j) = (xj, yj, zj) \<and>
              (xj - xi) * 1 + (yj - yi) * 0 + (zj - zi) * 0 > 1/5))) \<and>
     map_of (compute_all_relationships two_object_scene (1/5)) ''above'' = None \<and>
     map_of (compute_all_relationships two_object_scene (1/5)) ''below'' = None" ..
  note rel = all [THEN conjunct1] all [THEN conjunct2, THEN conjunct1]
  note entries = all [THEN conjunct2, THEN conjunct2, THEN conjunct1, rule_format]
  have "1 \<in> set (rel ! 0)"
    using entries [of 0] by (simp add: two_object_scene_def)
  moreover have "sorted (rel ! 0) \<and> 0 \<notin> set (rel ! 0)"
    using entries [of 0] by (simp add: two_object_scene_def)
  moreover have "0 \<notin> set (rel ! 1)"
    using entries [of 1] by (simp add: two_object_scene_def)
  moreover have "length rel = 2"
    using rel(2) by (simp add: two_object_scene_def)
  ultimately show ?thesis
    using rel(1) by simp
qed

section \<open>Properties of add_random_objects\<close>

declare slots.simps [simp del] tries.simps [simp del]

lemma slots_done: "\<not> i < n \<Longrightarrow> slots e n i loc w = Return loc w"
  by (subst slots.simps) simp

lemma slots_next:
  "i < n \<Longrightarrow> slots e n i loc w =
     (case random_choice (size_mapping (properties e)) w of
        Return (sname, r) w1 \<Rightarrow> tries e n i sname r 0 loc w1
      | Raise err w' \<Rightarrow> Raise err w'
      | Starved \<Rightarrow> Starved)"
  by (subst slots.simps) simp

lemma tries_restart:
  "num_tries + 1 > max_retries (args e) \<Longrightarrow>
   tries e n i sname r num_tries loc w =
     slots e n 0 no_locals (fold delete_object (blender_objects loc) w)"
  by (subst tries.simps) simp

lemma tries_starved:
  "\<not> num_tries + 1 > max_retries (args e) \<Longrightarrow> draw_position w = Starved \<Longrightarrow>
   tries e n i sname r num_tries loc w = Starved"
  by (subst tries.simps) simp

lemma tries_accept:
  "\<not> num_tries + 1 > max_retries (args e) \<Longrightarrow> draw_position w = Return (x, y) w1 \<Longrightarrow>
   dists_good (args e) x y r (positions loc) \<Longrightarrow>
   tries e n i sname r num_tries loc w =
     (case place_object e sname r x y loc w1 of
        Return loc' w2 \<Rightarrow> slots e n (Suc i) loc' w2
      | Raise err w' \<Rightarrow> Raise err w'
      | Starved \<Rightarrow> Starved)"
  by (subst tries.simps) simp

lemma tries_reject:
  "\<not> num_tries + 1 > max_retries (args e) \<Longrightarrow> draw_position w = Return (x, y) w1 \<Longrightarrow>
   \<not> dists_good (args e) x y r (positions loc) \<Longrightarrow>
   tries e n i sname r num_tries loc w = tries e n i sname r (num_tries + 1) loc w1"
  by (subst tries.simps) simp

lemma draw_position_cases:
  obtains (Starved) "draw_position w = Starved"
  | (Return) x y w1 where "draw_position w = Return (x, y) w1"
  by (cases "draw_position w")
     (auto simp: draw_position_def random_uniform_def random_random_def
        split: result.splits list.splits)

lemma slots_tries_invariant:
  fixes J :: "nat \<Rightarrow> locals \<Rightarrow> world \<Rightarrow> bool"
  shows "preserved e n J \<Longrightarrow> J i loc w \<Longrightarrow> slots e n i loc w = Return loc' w' \<Longrightarrow>
         \<exists>k\<ge>n. J k loc' w'"
    and "preserved e n J \<Longrightarrow> J i loc w \<Longrightarrow> i < n \<Longrightarrow>
         (sname, r) \<in> set (size_mapping (properties e)) \<Longrightarrow>
         tries e n i sname r num_tries loc w = Return loc' w' \<Longrightarrow> \<exists>k\<ge>n. J k loc' w'"
proof (induction e n i loc w and e n i sname r num_tries loc w rule: slots_tries.induct)
  case (1 e num_objects i loc w)
  note inv = "1.prems"(1) and J0 = "1.prems"(2) and run = "1.prems"(3)
  show ?case
  proof (cases "i < num_objects")
    case False
    with J0 run show ?thesis
      by (auto simp: slots_done not_less)
  next
    case True
    with run obtain sname r w1
      where c: "random_choice (size_mapping (properties e)) w = Return (sname, r) w1"
        and t: "tries e num_objects i sname r 0 loc w1 = Return loc' w'"
      by (auto simp: slots_next split: result.splits)
    have mem: "(sname, r) \<in> set (size_mapping (properties e))"
      by (rule random_choice_Return(1) [OF c])
    have "J i loc w1"
      using random_choice_Return(2) [OF c] J0 inv by (auto simp: preserved_def)
    then show ?thesis
      by (rule "1.IH" [OF True c refl inv _ True mem t])
  qed
next
  case (2 e num_objects i sname r num_tries loc w)
  note inv = "2.prems"(1) and J0 = "2.prems"(2) and less = "2.prems"(3)
    and mem = "2.prems"(4) and run = "2.prems"(5)
  show ?case
  proof (cases "num_tries + 1 > max_retries (args e)")
    case True
    then have "slots e num_objects 0 no_locals (fold delete_object (blender_objects loc) w)
                 = Return loc' w'"
      using run by (simp add: tries_restart)
    moreover have "J 0 no_locals (fold delete_object (blender_objects loc) w)"
      using inv J0 unfolding preserved_def by blast
    ultimately show ?thesis
      using "2.IH"(1) [OF True inv] by blast
  next
    case False
    show ?thesis
    proof (cases w rule: draw_position_cases)
      case Starved
      then show ?thesis
        using run False by (simp add: tries_starved)
    next
      case d: (Return x y w1)
      have J1: "J i loc w1"
        using draw_position_Return [OF d] inv J0 by (auto simp: preserved_def)
      show ?thesis
      proof (cases "dists_good (args e) x y r (positions loc)")
        case True
        with False d run obtain loc2 w2
          where p: "place_object e sname r x y loc w1 = Return loc2 w2"
            and s: "slots e num_objects (Suc i) loc2 w2 = Return loc' w'"
          by (auto simp: tries_accept split: result.splits)
        have "J (Suc i) loc2 w2"
          using inv J1 less mem True p unfolding preserved_def by blast
        then show ?thesis
          by (rule "2.IH"(2) [OF False d refl True p inv _ s])
      next
        case nogood: False
        with False d run
        have "tries e num_objects i sname r (num_tries + 1) loc w1 = Return loc' w'"
          by (simp add: tries_reject)
        then show ?thesis
          by (rule "2.IH"(3) [OF False d refl nogood inv J1 less mem])
      qed
    qed
  qed
qed

lemma slots_tries_Raise:
  fixes J :: "nat \<Rightarrow> locals \<Rightarrow> world \<Rightarrow> bool"
  shows "preserved e n J \<Longrightarrow> raises_ok e n J R \<Longrightarrow> J i loc w \<Longrightarrow>
         slots e n i loc w = Raise err w' \<Longrightarrow> R err w'"
    and "preserved e n J \<Longrightarrow> raises_ok e n J R \<Longrightarrow> J i loc w \<Longrightarrow> i < n \<Longrightarrow>
         (sname, r) \<in> set (size_mapping (properties e)) \<Longrightarrow>
         tries e n i sname r num_tries loc w = Raise err w' \<Longrightarrow> R err w'"
proof (induction e n i loc w and e n i sname r num_tries loc w rule: slots_tries.induct)
  case (1 e num_objects i loc w)
  note inv = "1.prems"(1) and rs = "1.prems"(2) and J0 = "1.prems"(3) and run = "1.prems"(4)
  show ?case
  proof (cases "i < num_objects")
    case False
    with run show ?thesis
      by (simp add: slots_done)
  next
    case True
    show ?thesis
    proof (cases "random_choice (size_mapping (properties e)) w")
      case (Return v w1)
      obtain sname r where v: "v = (sname, r)"
        by (cases v)
      have t: "tries e num_objects i sname r 0 loc w1 = Raise err w'"
        using run True Return v by (simp add: slots_next)
      have mem: "(sname, r) \<in> set (size_mapping (properties e))"
        using random_choice_Return(1) [OF Return] v by simp
      have "J i loc w1"
        using random_choice_Return(2) [OF Return] J0 inv by (auto simp: preserved_def)
      then show ?thesis
        by (rule "1.IH" [OF True Return [unfolded v] refl inv rs _ True mem t])
    next
      case (Raise err0 w0)
      then have "err0 = err" and "w0 = w'"
        using run True by (simp_all add: slots_next)
      then show ?thesis
        using rs J0 Raise unfolding raises_ok_def by blast
    next
      case Starved
      then show ?thesis
        using run True by (simp add: slots_next)
    qed
  qed
next
  case (2 e num_objects i sname r num_tries loc w)
  note inv = "2.prems"(1) and rs = "2.prems"(2) and J0 = "2.prems"(3) and less = "2.prems"(4)
    and mem = "2.prems"(5) and run = "2.prems"(6)
  show ?case
  proof (cases "num_tries + 1 > max_retries (args e)")
    case True
    then have "slots e num_objects 0 no_locals (fold delete_object (blender_objects loc) w)
                 = Raise err w'"
      using run by (simp add: tries_restart)
    moreover have "J 0 no_locals (fold delete_object (blender_objects loc) w)"
      using inv J0 unfolding preserved_def by blast
    ultimately show ?thesis
      using "2.IH"(1) [OF True inv rs] by blast
  next
    case False
    show ?thesis
    proof (cases w rule: draw_position_cases)
      case Starved
      then show ?thesis
        using run False by (simp add: tries_starved)
    next
      case d: (Return x y w1)
      have J1: "J i loc w1"
        using draw_position_Return [OF d] inv J0 by (auto simp: preserved_def)
      show ?thesis
      proof (cases "dists_good (args e) x y r (positions loc)")
        case True
        note eq = tries_accept [OF False d True, of num_objects i sname]
        show ?thesis
        proof (cases "place_object e sname r x y loc w1")
          case (Return loc2 w2)
          then have s: "slots e num_objects (Suc i) loc2 w2 = Raise err w'"
            using run eq by simp
          have "J (Suc i) loc2 w2"
            using inv J1 less mem True Return unfolding preserved_def by blast
          then show ?thesis
            by (rule "2.IH"(2) [OF False d refl True Return inv rs _ s])
        next
          case (Raise err0 w0)
          then have "err0 = err" and "w0 = w'"
            using run eq by simp_all
          then show ?thesis
            using rs J1 less Raise unfolding raises_ok_def by blast
        next
          case Starved
          then show ?thesis
            using run eq by simp
        qed
      next
        case nogood: False
        with False d run
        have "tries e num_objects i sname r (num_tries + 1) loc w1 = Raise err w'"
          by (simp add: tries_reject)
        then show ?thesis
          by (rule "2.IH"(3) [OF False d refl nogood inv rs J1 less mem])
      qed
    qed
  qed
qed

subsection \<open>The example run\<close>

lemma ex_tables:
  "object_mapping example_properties = [(''Cube'', ''cube''), (''Sphere'', ''sphere'')]"
  "material_mapping example_properties = [(''Rubber'', ''rubber'')]"
  "size_mapping example_properties = [(''large'', 7/10), (''small'', 7/20)]"
  "color_name_to_rgba example_properties = [(''red'', [1, 0, 0, 1]), (''blue'', [0, 0, 1, 1])]"
  by (simp_all add: object_mapping_def material_mapping_def size_mapping_def
      color_name_to_rgba_def example_properties_def)

lemma ex_fields:
  "args example_env = example_args"
  "properties example_env = example_properties"
  "shape_color_combos example_env = Some [(''cube'', [''red'']), (''sphere'', [''blue''])]"
  "object_location example_env = (\<lambda>obj_name r xy theta. (fst xy, snd xy, r))"
  "get_camera_coords example_env = (\<lambda>cam loc. (0, 0))"
  "max_retries example_args = 1"
  "min_dist example_args = 1/4"
  "margin example_args = 3"
  by (simp_all add: example_env_def example_args_def)

lemma sqrt2_bounds: "0 < 7 / (10 * sqrt 2)" "7 / (10 * sqrt 2) \<le> 7 / 10"
proof -
  show "0 < 7 / (10 * sqrt 2)"
    by simp
  have "1 \<le> sqrt 2"
    by simp
  then have "7 / (10 * sqrt 2) \<le> 7 / (10 * 1)"
    by (intro divide_left_mono mult_left_mono) simp_all
  then show "7 / (10 * sqrt 2) \<le> 7 / 10"
    by simp
qed

lemma ex_dists_general:
  "0 < t \<Longrightarrow> dists_good example_args 0 0 (7/20) [(0, 0, t)] = False"
  "t \<le> 7/10 \<Longrightarrow> dists_good example_args 2 0 (7/20) [(0, 0, t)] = True"
  by (simp_all add: ex_fields)

lemma ex_dists:
  "dists_good example_args 0 0 (7/20) [(0, 0, 7 / (10 * sqrt 2))] = False"
  "dists_good example_args 2 0 (7/20) [(0, 0, 7 / (10 * sqrt 2))] = True"
  by (rule ex_dists_general sqrt2_bounds)+

lemmas run_simps = add_random_objects_locals_def slots.simps tries.simps draw_position_def
  random_uniform_def place_object_def choose_color_shape_def random_choice_def random_random_def
  add_object_def fresh_handle_def set_layer_def add_material_def delete_object_def
  adjust_size_def no_locals_def Let_def

lemma example_run:
  "add_random_objects_locals 2 example_env example_world =
     Return example_locals example_world_after"
  by (simp add: run_simps ex_tables ex_fields ex_dists example_world_def example_locals_def
      example_world_after_def del: dists_good.simps(2))

lemma example_run_pair:
  "add_random_objects 2 example_env example_world =
     Return (placed_objects example_locals, blender_objects example_locals) example_world_after"
  by (simp add: add_random_objects_def example_run)

lemma mirrored_fields:
  "args mirrored_env = \<lparr>min_dist = 1/4, margin = 2/5, max_retries = 50, num_cams = 8,
              key_light_jitter = 0, back_light_jitter = 0, fill_light_jitter = 0\<rparr>"
  "shape_color_combos mirrored_env = None"
  "object_location mirrored_env = (\<lambda>obj_name r xy theta. (fst xy, snd xy, r))"
  "get_camera_coords mirrored_env = (\<lambda>cam loc. (0, 0))"
  "object_mapping (properties mirrored_env) = [(''Cube'', ''cube'')]"
  "material_mapping (properties mirrored_env) = [(''Rubber'', ''rubber'')]"
  "size_mapping (properties mirrored_env) = [(''large'', 1), (''mirrored'', - 1)]"
  "color_name_to_rgba (properties mirrored_env) = [(''red'', [1, 0, 0, 1])]"
  by (simp_all add: mirrored_env_def object_mapping_def material_mapping_def size_mapping_def
      color_name_to_rgba_def)

lemma mirrored_dists_general:
  "t \<le> 3/4 \<Longrightarrow> dists_good \<lparr>min_dist = 1/4, margin = 2/5, max_retries = 50, num_cams = 8,
              key_light_jitter = 0, back_light_jitter = 0, fill_light_jitter = 0\<rparr>
       0 0 (- 1) [(0, 0, t)] = True"
  by simp

lemma inverse_sqrt2_le: "1 / sqrt 2 \<le> 3/4"
proof -
  have "(4/3)\<^sup>2 \<le> (2::real)"
    by (simp add: power2_eq_square)
  then have "4/3 \<le> sqrt 2"
    by (rule real_le_rsqrt)
  then show ?thesis
    by (simp add: field_simps)
qed

lemma mirrored_run:
  "returned (add_random_objects_locals 2 mirrored_env mirrored_world) =
     Some \<lparr>positions = [(0, 0, 1 / sqrt 2), (0, 0, - (1 / sqrt 2))],
        placed_objects =
          [\<lparr>shape = ''cube'', size_name = ''large'', material = ''rubber'',
              coords3d = (0, 0, 1 / sqrt 2), rotation = 0,
              pixel_coords = (0, 0), color = ''red''\<rparr>,
           \<lparr>shape = ''cube'', size_name = ''mirrored'',
              material = ''rubber'', coords3d = (0, 0, - (1 / sqrt 2)),
              rotation = 0, pixel_coords = (0, 0), color = ''red''\<rparr>],
        blender_objects = [7, 8]\<rparr>"
  by (simp add: returned_def run_simps mirrored_fields mirrored_world_def example_world_def
        mirrored_dists_general [OF inverse_sqrt2_le] del: dists_good.simps(2))

lemma broken_fields:
  "args broken_env = example_args"
  "properties broken_env = example_properties"
  "shape_color_combos broken_env = Some [(''cube'', [''red'']), (''cone'', [''red''])]"
  "object_location broken_env = (\<lambda>obj_name r xy theta. (fst xy, snd xy, r))"
  "get_camera_coords broken_env = (\<lambda>cam loc. (0, 0))"
  by (simp_all add: broken_env_def example_env_def)

lemma broken_run:
  "add_random_objects 2 broken_env broken_world =
     Raise (ShapeLookup ''cone'') broken_world_after"
  by (simp add: add_random_objects_def run_simps ex_tables ex_fields(6,7) broken_fields ex_dists
      example_world_def broken_world_def broken_world_after_def del: dists_good.simps(2))

lemma broken_first_slot:
  "place_object broken_env ''large'' (7/10) 0 0 no_locals
       (broken_world\<lparr>rng_ints := [0, 0, 0, 1, 1, 0], rng_units := [0, 5/6, 1/2]\<rparr>) =
     Return broken_locals
       (broken_world_after\<lparr>rng_ints := [1, 1, 0], rng_units := [5/6, 1/2]\<rparr>)"
  by (simp add: run_simps ex_tables broken_fields no_locals_def broken_locals_def
      example_world_def broken_world_def broken_world_after_def)

subsection \<open>What the loops guarantee\<close>

lemma choose_color_shape_Return:
  assumes "choose_color_shape e w = Return (obj_name, obj_name_out, color_name, rgba) w1"
  shows "(obj_name, obj_name_out) \<in> set (object_mapping (properties e))"
    and "\<And>combos. shape_color_combos e = Some combos \<Longrightarrow>
           \<exists>cs. (obj_name_out, cs) \<in> set combos \<and> color_name \<in> set cs"
proof -
  show "(obj_name, obj_name_out) \<in> set (object_mapping (properties e))"
  proof (cases "shape_color_combos e")
    case None
    with assms obtain w0
      where "random_choice (object_mapping (properties e)) w = Return (obj_name, obj_name_out) w0"
      by (auto simp: choose_color_shape_def split: result.splits prod.splits)
    then show ?thesis
      by (rule random_choice_Return(1))
  next
    case (Some combos)
    with assms obtain v rest
      where f: "filter (\<lambda>(k, v). v = obj_name_out) (object_mapping (properties e))
                 = (obj_name, v) # rest"
      by (auto simp: choose_color_shape_def
          split: result.splits prod.splits list.splits option.splits)
    have "(obj_name, v) \<in> set (filter (\<lambda>(k, v). v = obj_name_out) (object_mapping (properties e)))"
      unfolding f by simp
    then show ?thesis
      by auto
  qed
next
  fix combos
  assume c: "shape_color_combos e = Some combos"
  with assms obtain cs w0 w0'
    where a: "random_choice combos w = Return (obj_name_out, cs) w0"
      and b: "random_choice cs w0 = Return color_name w0'"
    by (auto simp: choose_color_shape_def
        split: result.splits prod.splits list.splits option.splits)
  show "\<exists>cs. (obj_name_out, cs) \<in> set combos \<and> color_name \<in> set cs"
    using random_choice_Return(1) [OF a] random_choice_Return(1) [OF b] by blast
qed

lemma data_objects_fold_delete:
  "data_objects (fold delete_object hs w) = filter (\<lambda>h. h \<notin> set hs) (data_objects w)"
proof (induction hs arbitrary: w)
  case Nil
  show ?case by simp
next
  case (Cons h hs)
  show ?case
    by (simp add: Cons.IH) (simp add: delete_object_def conj_commute)
qed

lemma add_random_objects_Return:
  "add_random_objects n e w = Return (objs, bobjs) w' \<longleftrightarrow>
     (\<exists>loc. slots e n 0 no_locals w = Return loc w' \<and>
            objs = placed_objects loc \<and> bobjs = blender_objects loc)"
  by (auto simp: add_random_objects_def add_random_objects_locals_def split: result.splits)

lemma preserved_lengths:
  "preserved e n (\<lambda>i loc w. i \<le> n \<and> length (placed_objects loc) = i \<and>
      length (blender_objects loc) = i \<and> length (positions loc) = i)"
  unfolding preserved_def
  by (auto simp: no_locals_def elim!: place_object_Return)



lemma preserved_allowed:
  assumes "shape_color_combos e = Some combos"
  shows "preserved e n (\<lambda>i loc w. \<forall>obj \<in> set (placed_objects loc).
           \<exists>cs. (shape obj, cs) \<in> set combos \<and> color obj \<in> set cs)"
  unfolding preserved_def
proof (intro conjI allI impI)
  fix i loc sname r x y w loc' w'
  assume J: "\<forall>obj \<in> set (placed_objects loc). \<exists>cs. (shape obj, cs) \<in> set combos \<and> color obj \<in> set cs"
    and p: "place_object e sname r x y loc w = Return loc' w'"
  from p show "\<forall>obj \<in> set (placed_objects loc'). \<exists>cs. (shape obj, cs) \<in> set combos \<and> color obj \<in> set cs"
  proof (rule place_object_Return)
    fix obj_name obj_name_out color_name rgba w1 u w2 mat_name mat_name_out w5
    assume c: "choose_color_shape e w = Return (obj_name, obj_name_out, color_name, rgba) w1"
      and po: "placed_objects loc' = placed_objects loc @
           [\<lparr>shape = obj_name_out, size_name = sname, material = mat_name_out,
             coords3d = object_location e obj_name (adjust_size obj_name r) (x, y) (360 * u),
             rotation = 360 * u,
             pixel_coords = get_camera_coords e (camera_location w')
               (object_location e obj_name (adjust_size obj_name r) (x, y) (360 * u)),
             color = color_name\<rparr>]"
    show ?thesis
      using J choose_color_shape_Return(2) [OF c assms] unfolding po by auto
  qed
qed (simp_all add: no_locals_def)

text \<open>
  C8. With a restriction table supplied, every object that add_random_objects returns
  has a shape that is a key of the table and a color from the list the table gives for
  that shape.
\<close>

theorem add_random_objects_allowed_colors:
  assumes "shape_color_combos e = Some combos"
    and "add_random_objects n e w = Return (objs, bobjs) w'"
  shows "\<forall>obj \<in> set objs. \<exists>cs. (shape obj, cs) \<in> set combos \<and> color obj \<in> set cs"
proof -
  from assms(2) obtain loc' where run: "slots e n 0 no_locals w = Return loc' w'"
    and eq: "objs = placed_objects loc'"
    by (auto simp: add_random_objects_Return)
  have "\<exists>k\<ge>n. \<forall>obj \<in> set (placed_objects loc').
           \<exists>cs. (shape obj, cs) \<in> set combos \<and> color obj \<in> set cs"
    by (rule slots_tries_invariant(1) [OF preserved_allowed [OF assms(1)] _ run])
       (simp add: no_locals_def)
  then show ?thesis
    using eq by blast
qed

theorem add_random_objects_allowed_colors_witness:
  "shape_color_combos example_env = Some [(''cube'', [''red'']), (''sphere'', [''blue''])] \<and>
   add_random_objects 2 example_env example_world =
     Return (placed_objects example_locals, blender_objects example_locals) example_world_after \<and>
   (\<exists>cs. (shape (placed_objects example_locals ! 1), cs)
            \<in> set [(''cube'', [''red'']), (''sphere'', [''blue''])] \<and>
         color (placed_objects example_locals ! 1) \<in> set cs)"
proof -
  have "\<forall>obj \<in> set (placed_objects example_locals).
          \<exists>cs. (shape obj, cs) \<in> set [(''cube'', [''red'']), (''sphere'', [''blue''])] \<and>
               color obj \<in> set cs"
    by (rule add_random_objects_allowed_colors [OF ex_fields(3) example_run_pair])
  moreover have "placed_objects example_locals ! 1 \<in> set (placed_objects example_locals)"
    by (simp add: example_locals_def)
  ultimately show ?thesis
    using example_run_pair ex_fields(3) by blast
qed

lemma clearance_commute: "clearance p q = clearance q p"
proof -
  obtain x y r xx yy rr where "p = (x, y, r)" "q = (xx, yy, rr)"
    by (cases p, cases q) auto
  moreover have "(x - xx) * (x - xx) + (y - yy) * (y - yy) = (xx - x) * (xx - x) + (yy - y) * (yy - y)"
    by (simp add: algebra_simps)
  ultimately show ?thesis
    by (simp add: clearance_def)
qed

lemma dists_good_Cons:
  "dists_good a x y r (q # ps) \<longleftrightarrow>
     min_dist a \<le> clearance (x, y, r) q \<and> dists_good a x y r ps"
  by (cases q) (simp add: clearance_def Let_def not_less)

lemma dists_good_iff:
  "dists_good a x y r ps \<longleftrightarrow> (\<forall>q \<in> set ps. min_dist a \<le> clearance (x, y, r) q)"
  by (induction ps) (simp_all add: dists_good_Cons del: dists_good.simps(2))

lemma adjust_size_le: "0 \<le> r \<Longrightarrow> adjust_size obj_name r \<le> r"
proof -
  assume "0 \<le> r"
  have "1 \<le> sqrt 2"
    by simp
  then have "r / sqrt 2 \<le> r / 1"
    using \<open>0 \<le> r\<close> by (intro divide_left_mono) simp_all
  then show ?thesis
    by (simp add: adjust_size_def)
qed

lemma separated_snoc:
  assumes "separated d ps" and "\<forall>q \<in> set ps. d \<le> clearance p q"
  shows "separated d (ps @ [p])"
  unfolding separated_def
proof (intro allI impI)
  fix i j
  assume i: "i < length (ps @ [p])" and j: "j < length (ps @ [p])" and ne: "i \<noteq> j"
  consider "i < length ps" "j < length ps" | "i < length ps" "j = length ps"
    | "i = length ps" "j < length ps"
    using i j ne by fastforce
  then show "d \<le> clearance ((ps @ [p]) ! i) ((ps @ [p]) ! j)"
  proof cases
    case 1
    then show ?thesis
      using assms(1) ne by (simp add: separated_def nth_append)
  next
    case 2
    then have "d \<le> clearance p (ps ! i)"
      using assms(2) by simp
    then show ?thesis
      using 2 by (simp add: nth_append clearance_commute)
  next
    case 3
    then have "d \<le> clearance p (ps ! j)"
      using assms(2) by simp
    then show ?thesis
      using 3 by (simp add: nth_append)
  qed
qed

lemma preserved_separated:
  assumes "(\<forall>(sname, r) \<in> set (sizes (properties e)). 0 \<le> r) \<or>
           (\<forall>(name, model) \<in> set (shapes (properties e)). model \<noteq> ''Cube'')"
  shows "preserved e n (\<lambda>i loc w. separated (min_dist (args e)) (positions loc))"
  unfolding preserved_def
proof (intro conjI allI impI)
  fix i loc sname r x y w loc' w'
  assume J: "separated (min_dist (args e)) (positions loc)"
    and mem: "(sname, r) \<in> set (size_mapping (properties e))"
    and good: "dists_good (args e) x y r (positions loc)"
    and p: "place_object e sname r x y loc w = Return loc' w'"
  from p obtain obj_name obj_name_out color_name rgba w1
    where c: "choose_color_shape e w = Return (obj_name, obj_name_out, color_name, rgba) w1"
      and pos: "positions loc' = positions loc @ [(x, y, adjust_size obj_name r)]"
    by (rule place_object_Return)
  have smaller: "adjust_size obj_name r \<le> r"
    using assms
  proof
    assume "\<forall>(sname, r) \<in> set (sizes (properties e)). 0 \<le> r"
    then have "0 \<le> r"
      using mem by (auto simp: size_mapping_def)
    then show ?thesis
      by (rule adjust_size_le)
  next
    assume "\<forall>(name, model) \<in> set (shapes (properties e)). model \<noteq> ''Cube''"
    moreover have "(obj_name_out, obj_name) \<in> set (shapes (properties e))"
      using choose_color_shape_Return(1) [OF c] by (auto simp: object_mapping_def)
    ultimately have "obj_name \<noteq> ''Cube''"
      by auto
    then show ?thesis
      by (simp add: adjust_size_def)
  qed
  have "min_dist (args e) \<le> clearance (x, y, adjust_size obj_name r) q"
    if "q \<in> set (positions loc)" for q
  proof -
    have "min_dist (args e) \<le> clearance (x, y, r) q"
      using good that by (simp add: dists_good_iff)
    also have "\<dots> \<le> clearance (x, y, adjust_size obj_name r) q"
      using smaller by (cases q) (simp add: clearance_def)
    finally show ?thesis .
  qed
  then show "separated (min_dist (args e)) (positions loc')"
    unfolding pos using J by (intro separated_snoc) auto
qed (simp_all add: no_locals_def separated_def)

text \<open>
  C1. The scale factors of the size catalog are collision radii, so none of them is
  negative (the statement also covers a catalog with negative ones as long as no
  shape has the model 'Cube'). Then any two distinct entries of \<open>positions\<close> at the
  return of add_random_objects are apart by at least \<open>args.min_dist\<close>: planar
  distance minus the two recorded radii. And a candidate that is closer than that to
  some recorded object is not accepted: the loop goes round again with the retry
  counter incremented.
\<close>

theorem add_random_objects_separated:
  "((\<forall>(sname, r) \<in> set (sizes (properties e)). 0 \<le> r) \<or>
    (\<forall>(name, model) \<in> set (shapes (properties e)). model \<noteq> ''Cube'') \<longrightarrow>
      add_random_objects_locals n e w = Return loc w' \<longrightarrow>
      (\<forall>i < length (positions loc). \<forall>j < length (positions loc). i \<noteq> j \<longrightarrow>
         min_dist (args e) \<le> clearance (positions loc ! i) (positions loc ! j))) \<and>
   (\<not> max_retries (args e) < num_tries + 1 \<longrightarrow> draw_position w0 = Return (x, y) w1 \<longrightarrow>
      (\<exists>q \<in> set (positions loc0). clearance (x, y, r) q < min_dist (args e)) \<longrightarrow>
      tries e n k sname r num_tries loc0 w0 = tries e n k sname r (num_tries + 1) loc0 w1)"
proof (intro conjI impI)
  assume sz: "(\<forall>(sname, r) \<in> set (sizes (properties e)). 0 \<le> r) \<or>
    (\<forall>(name, model) \<in> set (shapes (properties e)). model \<noteq> ''Cube'')"
    and run: "add_random_objects_locals n e w = Return loc w'"
  have "\<exists>k\<ge>n. separated (min_dist (args e)) (positions loc)"
    by (rule slots_tries_invariant(1) [OF preserved_separated [OF sz] _
          run [unfolded add_random_objects_locals_def]])
       (simp add: no_locals_def separated_def)
  then show "\<forall>i < length (positions loc). \<forall>j < length (positions loc). i \<noteq> j \<longrightarrow>
         min_dist (args e) \<le> clearance (positions loc ! i) (positions loc ! j)"
    by (simp add: separated_def)
next
  assume "\<not> max_retries (args e) < num_tries + 1" "draw_position w0 = Return (x, y) w1"
    "\<exists>q \<in> set (positions loc0). clearance (x, y, r) q < min_dist (args e)"
  then show "tries e n k sname r num_tries loc0 w0 = tries e n k sname r (num_tries + 1) loc0 w1"
    by (intro tries_reject) (auto simp: dists_good_iff not_le)
qed

theorem add_random_objects_separated_witness:
  "0 \<le> (7/10 :: real) \<and> 0 \<le> (7/20 :: real) \<and>
   add_random_objects_locals 2 example_env example_world =
     Return example_locals example_world_after \<and>
   min_dist (args example_env)
     \<le> clearance (positions example_locals ! 0) (positions example_locals ! 1) \<and>
   \<not> max_retries (args example_env) < 0 + 1 \<and>
   draw_position (example_world_after\<lparr>rng_units := [1/2, 1/2]\<rparr>) =
     Return (0, 0) example_world_after \<and>
   clearance (0, 0, 7/20) (positions example_locals ! 0) < min_dist (args example_env) \<and>
   tries example_env 2 1 ''small'' (7/20) 0 example_locals
       (example_world_after\<lparr>rng_units := [1/2, 1/2]\<rparr>) =
     tries example_env 2 1 ''small'' (7/20) (0 + 1) example_locals example_world_after"
proof -
  have sz: "\<forall>(sname, r) \<in> set (sizes (properties example_env)). 0 \<le> r"
    by (simp add: ex_fields example_properties_def)
  have d: "draw_position (example_world_after\<lparr>rng_units := [1/2, 1/2]\<rparr>) =
     Return (0, 0) example_world_after"
    by (simp add: draw_position_def random_uniform_def random_random_def
        example_world_after_def example_world_def)
  have "clearance (0, 0, 7/20) (0, 0, t) < 1/4" if "0 < t" for t :: real
    using that by (simp add: clearance_def)
  from this [OF sqrt2_bounds(1)]
  have c: "clearance (0, 0, 7/20) (positions example_locals ! 0) < min_dist (args example_env)"
    by (simp add: example_locals_def ex_fields)
  then have ex: "\<exists>q \<in> set (positions example_locals).
      clearance (0, 0, 7/20) q < min_dist (args example_env)"
    by (auto simp: example_locals_def)
  have m: "\<not> max_retries (args example_env) < 0 + 1"
    by (simp add: ex_fields)
  note t = add_random_objects_separated
    [where e = example_env and n = 2 and w = example_world and loc = example_locals
       and w' = example_world_after and num_tries = 0
       and ?w0.0 = "example_world_after\<lparr>rng_units := [1/2, 1/2]\<rparr>" and x = 0 and y = 0
       and ?w1.0 = example_world_after and ?loc0.0 = example_locals and r = "7/20" and k = 1
       and sname = "''small''"]
  have "\<forall>i < length (positions example_locals).
      \<forall>j < length (positions example_locals). i \<noteq> j \<longrightarrow>
        min_dist (args example_env)
          \<le> clearance (positions example_locals ! i) (positions example_locals ! j)"
    using t sz example_run by blast
  moreover have "length (positions example_locals) = 2"
    by (simp add: example_locals_def)
  ultimately have "min_dist (args example_env)
     \<le> clearance (positions example_locals ! 0) (positions example_locals ! 1)"
    by simp
  moreover have "tries example_env 2 1 ''small'' (7/20) 0 example_locals
       (example_world_after\<lparr>rng_units := [1/2, 1/2]\<rparr>) =
     tries example_env 2 1 ''small'' (7/20) (0 + 1) example_locals example_world_after"
    using t m d ex by blast
  ultimately show ?thesis
    using example_run d c m by simp
qed

text \<open>
  The condition on the catalog is used: a cube is checked with its drawn scale factor
  and recorded with the adjusted one, which is the larger of the two when the scale
  factor is negative.
\<close>

lemma negative_scale_cube_run:
  "map_option positions (returned (add_random_objects_locals 2 mirrored_env mirrored_world)) =
     Some [(0, 0, 1 / sqrt 2), (0, 0, - (1 / sqrt 2))] \<and>
   clearance (0, 0, 1 / sqrt 2) (0, 0, - (1 / sqrt 2)) < min_dist (args mirrored_env)"
  by (simp add: mirrored_run clearance_def mirrored_fields)

lemma preserved_radius:
  "preserved e n (\<lambda>i loc w. list_all2
      (\<lambda>p obj. \<exists>sname r obj_name. (sname, r) \<in> set (sizes (properties e)) \<and>
          size_name obj = sname \<and>
          (obj_name, shape obj) \<in> set (object_mapping (properties e)) \<and>
          snd (snd p) = (if obj_name = ''Cube'' then r / sqrt 2 else r))
      (positions loc) (placed_objects loc))"
  unfolding preserved_def
proof (intro conjI allI impI)
  fix i loc sname r x y w loc' w'
  let ?P = "\<lambda>p obj. \<exists>sname r obj_name. (sname, r) \<in> set (sizes (properties e)) \<and>
          size_name obj = sname \<and>
          (obj_name, shape obj) \<in> set (object_mapping (properties e)) \<and>
          snd (snd p) = (if obj_name = ''Cube'' then r / sqrt 2 else r)"
  assume J: "list_all2 ?P (positions loc) (placed_objects loc)"
    and mem: "(sname, r) \<in> set (size_mapping (properties e))"
    and p: "place_object e sname r x y loc w = Return loc' w'"
  from p show "list_all2 ?P (positions loc') (placed_objects loc')"
  proof (rule place_object_Return)
    fix obj_name obj_name_out color_name rgba w1 u w2 mat_name mat_name_out w5
    assume c: "choose_color_shape e w = Return (obj_name, obj_name_out, color_name, rgba) w1"
      and pos: "positions loc' = positions loc @ [(x, y, adjust_size obj_name r)]"
      and po: "placed_objects loc' = placed_objects loc @
           [\<lparr>shape = obj_name_out, size_name = sname, material = mat_name_out,
             coords3d = object_location e obj_name (adjust_size obj_name r) (x, y) (360 * u),
             rotation = 360 * u,
             pixel_coords = get_camera_coords e (camera_location w')
               (object_location e obj_name (adjust_size obj_name r) (x, y) (360 * u)),
             color = color_name\<rparr>]"
    have "?P (x, y, adjust_size obj_name r)
           \<lparr>shape = obj_name_out, size_name = sname, material = mat_name_out,
             coords3d = object_location e obj_name (adjust_size obj_name r) (x, y) (360 * u),
             rotation = 360 * u,
             pixel_coords = get_camera_coords e (camera_location w')
               (object_location e obj_name (adjust_size obj_name r) (x, y) (360 * u)),
             color = color_name\<rparr>"
      using mem choose_color_shape_Return(1) [OF c]
      by (auto simp: size_mapping_def adjust_size_def)
    then show ?thesis
      unfolding pos po using J by (intro list_all2_appendI) simp_all
  qed
qed (simp_all add: no_locals_def)

text \<open>
  C7. At the return of add_random_objects, slot \<open>k\<close> has a recorded radius
  \<open>positions[k][2]\<close> that is the scale factor \<open>r\<close> of the size name recorded for the
  object, divided by \<open>sqrt 2\<close> when the name \<open>obj_name\<close> of the drawn shape's model
  is 'Cube', and \<open>r\<close> itself for any other model.
\<close>

theorem add_random_objects_radius:
  assumes "add_random_objects_locals n e w = Return loc w'"
  shows "length (positions loc) = n \<and> length (placed_objects loc) = n \<and>
    (\<forall>k < n. \<exists>sname r obj_name.
        (sname, r) \<in> set (sizes (properties e)) \<and>
        size_name (placed_objects loc ! k) = sname \<and>
        (obj_name, shape (placed_objects loc ! k)) \<in> set (object_mapping (properties e)) \<and>
        snd (snd (positions loc ! k)) = (if obj_name = ''Cube'' then r / sqrt 2 else r))"
proof -
  note run = assms [unfolded add_random_objects_locals_def]
  have len: "\<exists>k\<ge>n. k \<le> n \<and> length (placed_objects loc) = k \<and>
      length (blender_objects loc) = k \<and> length (positions loc) = k"
    by (rule slots_tries_invariant(1) [OF preserved_lengths _ run]) (simp add: no_locals_def)
  have "\<exists>k\<ge>n. list_all2
      (\<lambda>p obj. \<exists>sname r obj_name. (sname, r) \<in> set (sizes (properties e)) \<and>
          size_name obj = sname \<and>
          (obj_name, shape obj) \<in> set (object_mapping (properties e)) \<and>
          snd (snd p) = (if obj_name = ''Cube'' then r / sqrt 2 else r))
      (positions loc) (placed_objects loc)"
    by (rule slots_tries_invariant(1) [OF preserved_radius _ run]) (simp add: no_locals_def)
  then show ?thesis
    using len by (auto simp: list_all2_conv_all_nth)
qed

theorem add_random_objects_radius_witness:
  "add_random_objects_locals 2 example_env example_world =
     Return example_locals example_world_after \<and>
   length (positions example_locals) = 2 \<and> length (placed_objects example_locals) = 2 \<and>
   (\<exists>sname r obj_name.
        (sname, r) \<in> set (sizes (properties example_env)) \<and>
        size_name (placed_objects example_locals ! 0) = sname \<and>
        (obj_name, shape (placed_objects example_locals ! 0))
          \<in> set (object_mapping (properties example_env)) \<and>
        snd (snd (positions example_locals ! 0)) =
          (if obj_name = ''Cube'' then r / sqrt 2 else r))"
  using add_random_objects_radius [OF example_run] example_run
  by simp

lemma dists_good_margin:
  "dists_good (a\<lparr>margin := m\<rparr>) x y r ps = dists_good a x y r ps"
  by (simp add: dists_good_iff)

lemma place_object_margin:
  "place_object (e\<lparr>args := (args e)\<lparr>margin := m\<rparr>\<rparr>) sname r x y loc w =
   place_object e sname r x y loc w"
proof -
  let ?e = "e\<lparr>args := (args e)\<lparr>margin := m\<rparr>\<rparr>"
  have eqs: "properties ?e = properties e" "shape_color_combos ?e = shape_color_combos e"
    "object_location ?e = object_location e" "get_camera_coords ?e = get_camera_coords e"
    by simp_all
  show ?thesis
    unfolding place_object_def choose_color_shape_def eqs ..
qed

lemma slots_tries_margin:
  "slots (e\<lparr>args := (args e)\<lparr>margin := m\<rparr>\<rparr>) n i loc w = slots e n i loc w"
  "tries (e\<lparr>args := (args e)\<lparr>margin := m\<rparr>\<rparr>) n i sname r num_tries loc w =
   tries e n i sname r num_tries loc w"
proof (induction e n i loc w and e n i sname r num_tries loc w rule: slots_tries.induct)
  case (1 e num_objects i loc w)
  show ?case
  proof (cases "i < num_objects")
    case True
    show ?thesis
      using "1.IH" [OF True]
      by (simp add: slots_next [OF True] split: result.splits prod.splits)
  next
    case False
    then show ?thesis
      by (simp add: slots_done)
  qed
next
  case (2 e num_objects i sname r num_tries loc w)
  let ?e = "e\<lparr>args := (args e)\<lparr>margin := m\<rparr>\<rparr>"
  show ?case
  proof (cases "num_tries + 1 > max_retries (args e)")
    case True
    then show ?thesis
      using "2.IH"(1) by (simp add: tries_restart)
  next
    case False
    then have False': "\<not> num_tries + 1 > max_retries (args ?e)"
      by simp
    show ?thesis
    proof (cases w rule: draw_position_cases)
      case Starved
      then show ?thesis
        using False by (simp add: tries_starved)
    next
      case d: (Return x y w1)
      show ?thesis
      proof (cases "dists_good (args e) x y r (positions loc)")
        case True
        then have True': "dists_good (args ?e) x y r (positions loc)"
          by (simp add: dists_good_margin)
        show ?thesis
          using "2.IH"(2) [OF False d refl True]
          by (simp add: tries_accept [OF False d True] tries_accept [OF False' d True']
              place_object_margin split: result.splits)
      next
        case nogood: False
        then have nogood': "\<not> dists_good (args ?e) x y r (positions loc)"
          by (simp add: dists_good_margin)
        show ?thesis
          using "2.IH"(3) [OF False d refl nogood]
          by (simp add: tries_reject [OF False d nogood] tries_reject [OF False' d nogood'])
      qed
    qed
  qed
qed

text \<open>
  C5. add_random_objects never reads \<open>args.margin\<close>: with any other margin the same
  draws give the same result. In the example run the margin is 3 and the two objects
  are accepted at planar distance 2, so that along any direction of the plane they
  are less than the margin apart.
\<close>

theorem add_random_objects_ignores_margin:
  "add_random_objects n (e\<lparr>args := (args e)\<lparr>margin := m\<rparr>\<rparr>) w = add_random_objects n e w \<and>
   map_option positions (returned (add_random_objects_locals 2 example_env example_world)) =
     Some [(0, 0, 7 / (10 * sqrt 2)), (2, 0, 7 / 20)] \<and>
   sqrt ((2 - 0) * (2 - 0) + (0 - 0) * (0 - 0)) = 2 \<and>
   margin (args example_env) = 3"
  by (simp add: add_random_objects_def add_random_objects_locals_def slots_tries_margin
      example_run [unfolded add_random_objects_locals_def] returned_def example_locals_def
      ex_fields)

lemma fresh_handle_notin: "fresh_handle w \<notin> set (data_objects w)"
proof -
  have "h \<le> fold max hs a" if "h \<in> set hs" for h a and hs :: "nat list"
    using that
  proof (induction hs arbitrary: a)
    case Nil
    then show ?case by simp
  next
    case (Cons x xs)
    have "a \<le> fold max xs a" for a
      by (induction xs arbitrary: a) (auto intro: order_trans [OF max.cobounded2])
    then show ?case
      using Cons by (auto intro: order_trans [OF max.cobounded1])
  qed
  from this [of "fresh_handle w" "data_objects w" 0] show ?thesis
    by (auto simp: fresh_handle_def)
qed

lemma choose_color_shape_data:
  "choose_color_shape e w = Return v w' \<Longrightarrow> data_objects w' = data_objects w"
  unfolding choose_color_shape_def random_choice_def
  by (auto split: option.splits result.splits prod.splits list.splits if_splits)

lemma place_object_data_objects:
  assumes "place_object e sname r x y loc w = Return loc' w'"
  obtains h where "h \<notin> set (data_objects w)"
    and "data_objects w' = data_objects w @ [h]"
    and "blender_objects loc' = blender_objects loc @ [h]"
proof -
  from assms obtain obj_name obj_name_out color_name rgba w1 u w2 mat_name mat_name_out w5
    where c: "choose_color_shape e w = Return (obj_name, obj_name_out, color_name, rgba) w1"
    and u: "random_random w1 = Return u w2"
    and m: "random_choice (material_mapping (properties e))
           (set_layer (fresh_handle w2)
              (snd (add_object obj_name (adjust_size obj_name r) (x, y) (360 * u) w2)))
         = Return (mat_name, mat_name_out) w5"
    and w': "w' = add_material mat_name rgba w5"
    and b: "blender_objects loc' = blender_objects loc @ [fresh_handle w2]"
    by (rule place_object_Return)
  have d2: "data_objects w2 = data_objects w"
    using random_random_Return [OF u] choose_color_shape_data [OF c] by auto
  have "data_objects w5 = data_objects (set_layer (fresh_handle w2)
              (snd (add_object obj_name (adjust_size obj_name r) (x, y) (360 * u) w2)))"
    using random_choice_Return(2) [OF m] by auto
  then have "data_objects w' = data_objects w @ [fresh_handle w2]"
    by (simp add: w' add_material_def set_layer_def add_object_def d2)
  moreover have "fresh_handle w2 \<notin> set (data_objects w)"
    using fresh_handle_notin [of w2] by (simp add: d2)
  ultimately show ?thesis
    using b that by blast
qed

lemma preserved_data_objects: "preserved e n (placed_in_scene ds n)"
  unfolding preserved_def
proof (intro conjI allI impI)
  fix i :: nat and loc :: locals and w :: world
  assume J: "placed_in_scene ds n i loc w"
  then have "filter (\<lambda>h. h \<notin> set (blender_objects loc)) (data_objects w) = ds"
    by (auto simp: placed_in_scene_def filter_id_conv filter_empty_conv)
  then show "placed_in_scene ds n 0 no_locals (fold delete_object (blender_objects loc) w)"
    by (simp add: placed_in_scene_def data_objects_fold_delete no_locals_def)
next
  fix i loc sname r x y w loc' w'
  assume J: "placed_in_scene ds n i loc w"
    and less: "i < n"
    and p: "place_object e sname r x y loc w = Return loc' w'"
  from p obtain h where "h \<notin> set (data_objects w)"
    and "data_objects w' = data_objects w @ [h]"
    and "blender_objects loc' = blender_objects loc @ [h]"
    by (rule place_object_data_objects)
  then show "placed_in_scene ds n (Suc i) loc' w'"
    using J less by (auto simp: placed_in_scene_def)
qed (simp_all add: placed_in_scene_def)

lemma add_random_objects_data_objects:
  assumes "add_random_objects n e w = Return (objs, bobjs) w'"
  shows "data_objects w' = data_objects w @ bobjs" and "length bobjs = n"
proof -
  from assms obtain loc where run: "slots e n 0 no_locals w = Return loc w'"
    and eq: "objs = placed_objects loc" "bobjs = blender_objects loc"
    by (auto simp: add_random_objects_Return)
  have "\<exists>k\<ge>n. placed_in_scene (data_objects w) n k loc w'"
    by (rule slots_tries_invariant(1) [OF preserved_data_objects _ run])
       (simp add: placed_in_scene_def no_locals_def)
  then show "data_objects w' = data_objects w @ bobjs" and "length bobjs = n"
    using eq by (auto simp: placed_in_scene_def)
qed

lemma whole_slots_append:
  "whole_slots evs \<Longrightarrow> whole_slots evs' \<Longrightarrow> whole_slots (evs @ evs')"
  by (induction evs rule: whole_slots.induct) simp_all

lemma whole_slots_fold_delete:
  "\<exists>evs. calls (fold delete_object hs w) = calls w @ evs \<and> whole_slots evs"
proof (induction hs arbitrary: w)
  case Nil
  show ?case by simp
next
  case (Cons h hs)
  obtain evs where "calls (fold delete_object hs (delete_object h w)) =
      calls (delete_object h w) @ evs" and "whole_slots evs"
    using Cons.IH by blast
  then have "calls (fold delete_object (h # hs) w) = calls w @ (DeleteObject h # evs)"
    and "whole_slots (DeleteObject h # evs)"
    by (simp_all add: delete_object_def)
  then show ?case
    by blast
qed

lemma choose_color_shape_calls:
  "choose_color_shape e w = Return v w' \<Longrightarrow> calls w' = calls w"
  "choose_color_shape e w = Raise err w' \<Longrightarrow> calls w' = calls w"
  unfolding choose_color_shape_def random_choice_def
  by (auto split: option.splits result.splits prod.splits list.splits if_splits)

lemma place_object_calls:
  assumes "place_object e sname r x y loc w = Return loc' w'"
  shows "\<exists>evs. calls w' = calls w @ evs \<and> whole_slots evs"
proof -
  from assms obtain obj_name obj_name_out color_name rgba w1 u w2 mat_name mat_name_out w5
    where c: "choose_color_shape e w = Return (obj_name, obj_name_out, color_name, rgba) w1"
    and u: "random_random w1 = Return u w2"
    and m: "random_choice (material_mapping (properties e))
           (set_layer (fresh_handle w2)
              (snd (add_object obj_name (adjust_size obj_name r) (x, y) (360 * u) w2)))
         = Return (mat_name, mat_name_out) w5"
    and w': "w' = add_material mat_name rgba w5"
    by (rule place_object_Return)
  have "calls w2 = calls w"
    using random_random_Return [OF u] choose_color_shape_calls(1) [OF c] by auto
  moreover have "calls w5 = calls (set_layer (fresh_handle w2)
              (snd (add_object obj_name (adjust_size obj_name r) (x, y) (360 * u) w2)))"
    using random_choice_Return(2) [OF m] by auto
  ultimately have "calls w' = calls w @
      [AddObject obj_name (adjust_size obj_name r) (x, y) (360 * u), SetLayer (fresh_handle w2),
       AddMaterial mat_name rgba]"
    by (simp add: w' add_material_def set_layer_def add_object_def)
  then show ?thesis
    by simp
qed

lemma place_object_Raise_calls:
  assumes "place_object e sname r x y loc w = Raise err w'"
    and "err = ShapeLookup s \<or> err = ColorLookup s"
  shows "calls w' = calls w"
proof (cases "choose_color_shape e w")
  case (Return v w1)
  obtain obj_name obj_name_out color_name rgba
    where v: "v = (obj_name, obj_name_out, color_name, rgba)"
    by (cases v)
  show ?thesis
  proof (cases "random_random w1")
    case u: (Return u w2)
    have "err = EmptyChoice"
      using assms(1) Return v u
      by (auto simp: place_object_def Let_def add_object_def random_choice_def
          split: result.splits prod.splits if_splits list.splits)
    then show ?thesis
      using assms(2) by simp
  next
    case (Raise err0 w0)
    then show ?thesis
      by (simp add: random_random_def split: list.splits)
  next
    case Starved
    then show ?thesis
      using assms(1) Return v by (simp add: place_object_def)
  qed
next
  case (Raise err0 w0)
  then have "w0 = w'"
    using assms(1) by (simp add: place_object_def)
  then show ?thesis
    using choose_color_shape_calls(2) [OF Raise] by simp
next
  case Starved
  then show ?thesis
    using assms(1) by (simp add: place_object_def)
qed

lemma slot_triples_snoc:
  "slot_triples hs evs \<Longrightarrow>
   slot_triples (hs @ [h]) (evs @ [AddObject obj_name r xy theta, SetLayer h, AddMaterial mat_name rgba])"
  by (induction hs evs rule: slot_triples.induct) simp_all

lemma slot_triples_whole: "slot_triples hs evs \<Longrightarrow> whole_slots evs"
  by (induction hs evs rule: slot_triples.induct) simp_all

lemma color_name_to_rgba_None:
  "map_of (color_name_to_rgba props) name = None \<longleftrightarrow> name \<notin> fst ` set (colors props)"
proof -
  have "map_of (fold (\<lambda>(name, rgb) d. AList.update name (map (\<lambda>c. c / 255) rgb @ [1]) d) cs acc)
          name = None \<longleftrightarrow> name \<notin> fst ` set cs \<and> map_of acc name = None"
    for cs :: "(string \<times> real list) list" and acc
  proof (induction cs arbitrary: acc)
    case Nil
    show ?case by simp
  next
    case (Cons c cs)
    show ?case
      by (cases c) (auto simp: Cons.IH update_conv')
  qed
  then show ?thesis
    by (simp add: color_name_to_rgba_def)
qed

lemma shape_filter_empty:
  "filter (\<lambda>(k, v). v = obj_name_out) (object_mapping props) = [] \<longleftrightarrow>
     obj_name_out \<notin> fst ` set (shapes props)"
  by (auto simp: object_mapping_def filter_empty_conv image_iff)

lemma choose_color_shape_unresolved:
  assumes "shape_color_combos e = Some combos"
    and "random_choice combos w = Return (obj_name_out, color_choices) w1"
    and "random_choice color_choices w1 = Return color_name w2"
    and "obj_name_out \<notin> fst ` set (shapes (properties e)) \<or>
         color_name \<notin> fst ` set (colors (properties e))"
  shows "choose_color_shape e w =
           Raise (if obj_name_out \<notin> fst ` set (shapes (properties e))
                  then ShapeLookup obj_name_out else ColorLookup color_name) w2"
proof (cases "obj_name_out \<notin> fst ` set (shapes (properties e))")
  case True
  then have "filter (\<lambda>(k, v). v = obj_name_out) (object_mapping (properties e)) = []"
    by (simp add: shape_filter_empty)
  then show ?thesis
    using True assms(1-3) by (simp add: choose_color_shape_def)
next
  case False
  then obtain p ps where f: "filter (\<lambda>(k, v). v = obj_name_out) (object_mapping (properties e)) = p # ps"
    by (cases "filter (\<lambda>(k, v). v = obj_name_out) (object_mapping (properties e))")
       (simp_all add: shape_filter_empty)
  have "map_of (color_name_to_rgba (properties e)) color_name = None"
    using False assms(4) by (simp add: color_name_to_rgba_None)
  then show ?thesis
    using False assms(1-3) f by (cases p) (simp add: choose_color_shape_def)
qed

lemma tries_unresolved:
  assumes combos: "shape_color_combos e = Some combos"
    and tries: "\<not> max_retries (args e) < num_tries + 1"
    and pos: "draw_position w = Return (x, y) w1"
    and good: "dists_good (args e) x y r (positions loc)"
    and c1: "random_choice combos w1 = Return (obj_name_out, color_choices) w2"
    and c2: "random_choice color_choices w2 = Return color_name w3"
    and un: "obj_name_out \<notin> fst ` set (shapes (properties e)) \<or>
         color_name \<notin> fst ` set (colors (properties e))"
  shows "tries e n i sname r num_tries loc w =
           Raise (if obj_name_out \<notin> fst ` set (shapes (properties e))
                  then ShapeLookup obj_name_out else ColorLookup color_name) w3"
    and "calls w3 = calls w" and "data_objects w3 = data_objects w"
proof -
  have "place_object e sname r x y loc w1 =
           Raise (if obj_name_out \<notin> fst ` set (shapes (properties e))
                  then ShapeLookup obj_name_out else ColorLookup color_name) w3"
    by (simp add: place_object_def choose_color_shape_unresolved [OF combos c1 c2 un])
  then show "tries e n i sname r num_tries loc w =
           Raise (if obj_name_out \<notin> fst ` set (shapes (properties e))
                  then ShapeLookup obj_name_out else ColorLookup color_name) w3"
    by (simp add: tries_accept [OF tries pos good])
  show "calls w3 = calls w" and "data_objects w3 = data_objects w"
    using draw_position_Return [OF pos] random_choice_Return(2) [OF c1]
      random_choice_Return(2) [OF c2]
    by auto
qed

lemma place_object_effect:
  assumes "place_object e sname r x y loc w = Return loc' w'"
  obtains h obj_name r' theta mat_name rgba
  where "h \<notin> set (data_objects w)"
    and "data_objects w' = data_objects w @ [h]"
    and "blender_objects loc' = blender_objects loc @ [h]"
    and "calls w' = calls w @
           [AddObject obj_name r' (x, y) theta, SetLayer h, AddMaterial mat_name rgba]"
proof -
  from assms obtain obj_name obj_name_out color_name rgba w1 u w2 mat_name mat_name_out w5
    where c: "choose_color_shape e w = Return (obj_name, obj_name_out, color_name, rgba) w1"
    and u: "random_random w1 = Return u w2"
    and m: "random_choice (material_mapping (properties e))
           (set_layer (fresh_handle w2)
              (snd (add_object obj_name (adjust_size obj_name r) (x, y) (360 * u) w2)))
         = Return (mat_name, mat_name_out) w5"
    and w': "w' = add_material mat_name rgba w5"
    and b: "blender_objects loc' = blender_objects loc @ [fresh_handle w2]"
    by (rule place_object_Return)
  have d2: "data_objects w2 = data_objects w" and c2: "calls w2 = calls w"
    using random_random_Return [OF u] choose_color_shape_data [OF c]
      choose_color_shape_calls(1) [OF c] by auto
  have "data_objects w5 = data_objects (set_layer (fresh_handle w2)
              (snd (add_object obj_name (adjust_size obj_name r) (x, y) (360 * u) w2)))"
    and "calls w5 = calls (set_layer (fresh_handle w2)
              (snd (add_object obj_name (adjust_size obj_name r) (x, y) (360 * u) w2)))"
    using random_choice_Return(2) [OF m] by auto
  then have "data_objects w' = data_objects w @ [fresh_handle w2]"
    and "calls w' = calls w @
           [AddObject obj_name (adjust_size obj_name r) (x, y) (360 * u),
            SetLayer (fresh_handle w2), AddMaterial mat_name rgba]"
    by (simp_all add: w' add_material_def set_layer_def add_object_def d2 c2)
  moreover have "fresh_handle w2 \<notin> set (data_objects w)"
    using fresh_handle_notin [of w2] by (simp add: d2)
  ultimately show ?thesis
    using b that by blast
qed

lemma choose_color_shape_Raise_data:
  "choose_color_shape e w = Raise err w' \<Longrightarrow> data_objects w' = data_objects w"
  unfolding choose_color_shape_def random_choice_def
  by (auto split: option.splits result.splits prod.splits list.splits if_splits)

lemma place_object_Raise_data:
  assumes "place_object e sname r x y loc w = Raise err w'"
    and "err = ShapeLookup s \<or> err = ColorLookup s"
  shows "data_objects w' = data_objects w"
proof (cases "choose_color_shape e w")
  case (Return v w1)
  obtain obj_name obj_name_out color_name rgba
    where v: "v = (obj_name, obj_name_out, color_name, rgba)"
    by (cases v)
  show ?thesis
  proof (cases "random_random w1")
    case u: (Return u w2)
    have "err = EmptyChoice"
      using assms(1) Return v u
      by (auto simp: place_object_def Let_def add_object_def random_choice_def
          split: result.splits prod.splits if_splits list.splits)
    then show ?thesis
      using assms(2) by simp
  next
    case (Raise err0 w0)
    then show ?thesis
      by (simp add: random_random_def split: list.splits)
  next
    case Starved
    then show ?thesis
      using assms(1) Return v by (simp add: place_object_def)
  qed
next
  case (Raise err0 w0)
  then have "w0 = w'"
    using assms(1) by (simp add: place_object_def)
  then show ?thesis
    using choose_color_shape_Raise_data [OF Raise] by simp
next
  case Starved
  then show ?thesis
    using assms(1) by (simp add: place_object_def)
qed

lemma preserved_slots_in_scene: "preserved e n (slots_in_scene w0 n)"
proof -
  note base = preserved_data_objects [of e n "data_objects w0", unfolded preserved_def]
  show ?thesis
    unfolding preserved_def
  proof (intro conjI allI impI)
    fix i :: nat and loc :: locals and w :: world and ks
    assume "slots_in_scene w0 n i loc w"
    then show "slots_in_scene w0 n i loc (w\<lparr>rng_ints := ks\<rparr>)"
      by (simp add: slots_in_scene_def placed_in_scene_def)
  next
    fix i :: nat and loc :: locals and w :: world and us
    assume "slots_in_scene w0 n i loc w"
    then show "slots_in_scene w0 n i loc (w\<lparr>rng_units := us\<rparr>)"
      by (simp add: slots_in_scene_def placed_in_scene_def)
  next
    fix i :: nat and loc :: locals and w :: world
    assume J: "slots_in_scene w0 n i loc w"
    then obtain old cur where c: "calls w = calls w0 @ old @ cur" "whole_slots old"
      "slot_triples (blender_objects loc) cur"
      unfolding slots_in_scene_def by blast
    obtain evs where d: "calls (fold delete_object (blender_objects loc) w) = calls w @ evs"
      "whole_slots evs"
      using whole_slots_fold_delete by blast
    have "whole_slots (old @ cur @ evs)"
      by (intro whole_slots_append c(2) d(2) slot_triples_whole [OF c(3)])
    moreover have "calls (fold delete_object (blender_objects loc) w) =
        calls w0 @ (old @ cur @ evs) @ []"
      by (simp add: c(1) d(1))
    moreover have "slot_triples (blender_objects no_locals) []"
      by (simp add: no_locals_def)
    moreover have "placed_in_scene (data_objects w0) n 0 no_locals
        (fold delete_object (blender_objects loc) w)"
      using base J unfolding slots_in_scene_def by blast
    ultimately show "slots_in_scene w0 n 0 no_locals (fold delete_object (blender_objects loc) w)"
      unfolding slots_in_scene_def by blast
  next
    fix i loc sname r x y w loc' w'
    assume J: "slots_in_scene w0 n i loc w"
      and less: "i < n"
      and mem: "(sname, r) \<in> set (size_mapping (properties e))"
      and good: "dists_good (args e) x y r (positions loc)"
      and p: "place_object e sname r x y loc w = Return loc' w'"
    from J obtain old cur where c: "calls w = calls w0 @ old @ cur" "whole_slots old"
      "slot_triples (blender_objects loc) cur"
      unfolding slots_in_scene_def by blast
    from p obtain h obj_name r' theta mat_name rgba
      where b: "blender_objects loc' = blender_objects loc @ [h]"
        and k: "calls w' = calls w @
           [AddObject obj_name r' (x, y) theta, SetLayer h, AddMaterial mat_name rgba]"
      by (rule place_object_effect)
    have "calls w' = calls w0 @ old @
        (cur @ [AddObject obj_name r' (x, y) theta, SetLayer h, AddMaterial mat_name rgba])"
      by (simp add: k c(1))
    moreover have "slot_triples (blender_objects loc')
        (cur @ [AddObject obj_name r' (x, y) theta, SetLayer h, AddMaterial mat_name rgba])"
      unfolding b by (rule slot_triples_snoc [OF c(3)])
    moreover have "placed_in_scene (data_objects w0) n (Suc i) loc' w'"
      using base J less mem good p unfolding slots_in_scene_def by blast
    ultimately show "slots_in_scene w0 n (Suc i) loc' w'"
      unfolding slots_in_scene_def using c(2) by blast
  qed
qed

lemma add_random_objects_Raise_scene:
  assumes "add_random_objects n e w0 = Raise err w'"
    and "err = ShapeLookup s \<or> err = ColorLookup s"
  shows "\<exists>i loc. i < n \<and> slots_in_scene w0 n i loc w'"
proof -
  let ?R = "\<lambda>err1 w1. (err1 = ShapeLookup s \<or> err1 = ColorLookup s) \<longrightarrow>
              (\<exists>i loc. i < n \<and> slots_in_scene w0 n i loc w1)"
  have run: "slots e n 0 no_locals w0 = Raise err w'"
    using assms(1)
    by (auto simp: add_random_objects_def add_random_objects_locals_def split: result.splits)
  have rs: "raises_ok e n (slots_in_scene w0 n) ?R"
    unfolding raises_ok_def
  proof (intro conjI allI impI)
    fix i loc w1 err1 w1'
    assume "random_choice (size_mapping (properties e)) w1 = Raise err1 w1'"
      and "err1 = ShapeLookup s \<or> err1 = ColorLookup s"
    then show "\<exists>i loc. i < n \<and> slots_in_scene w0 n i loc w1'"
      by (auto simp: random_choice_def split: if_splits list.splits)
  next
    fix i loc sname r x y w1 err1 w1'
    assume J: "slots_in_scene w0 n i loc w1"
      and less: "i < n"
      and p: "place_object e sname r x y loc w1 = Raise err1 w1'"
      and l: "err1 = ShapeLookup s \<or> err1 = ColorLookup s"
    have "slots_in_scene w0 n i loc w1'"
      using J place_object_Raise_calls [OF p l] place_object_Raise_data [OF p l]
      by (simp add: slots_in_scene_def placed_in_scene_def)
    then show "\<exists>i loc. i < n \<and> slots_in_scene w0 n i loc w1'"
      using less by blast
  qed
  have init: "slots_in_scene w0 n 0 no_locals w0"
    by (simp add: slots_in_scene_def placed_in_scene_def no_locals_def)
  have "?R err w'"
    by (rule slots_tries_Raise(1) [OF preserved_slots_in_scene rs init run])
  then show ?thesis
    using assms(2) by blast
qed


text \<open>
  C9 (as amended). When the shape or the color name drawn for a slot is not in its
  catalog, add_random_objects fails at that draw, before the add_object and the
  add_material of that slot: the scene graph and the calls made to it are those of the
  moment the slot's position was drawn. Drawn for the first slot of the call, the
  failure leaves the scene graph as the call found it. In general, when
  add_random_objects fails on a lookup, the scene holds the objects it had at the call
  followed by the objects of the slots completed in the current attempt, fewer than
  num_objects, and the calls made since the start are whole slots of the attempts given
  up followed by exactly one add_object, set_layer and add_material per such object.
  Nothing checks the names before the first object is added.
\<close>

theorem add_random_objects_unresolved_name:
  "(shape_color_combos e = Some combos \<longrightarrow>
    random_choice combos w1 = Return (obj_name_out, color_choices) w2 \<longrightarrow>
    random_choice color_choices w2 = Return color_name w3 \<longrightarrow>
    obj_name_out \<notin> fst ` set (shapes (properties e)) \<or>
    color_name \<notin> fst ` set (colors (properties e)) \<longrightarrow>
      (\<not> max_retries (args e) < num_tries + 1 \<longrightarrow>
       draw_position w = Return (x, y) w1 \<longrightarrow>
       dists_good (args e) x y r (positions loc) \<longrightarrow>
         tries e n i sname r num_tries loc w =
           Raise (if obj_name_out \<notin> fst ` set (shapes (properties e))
                  then ShapeLookup obj_name_out else ColorLookup color_name) w3 \<and>
         calls w3 = calls w \<and> data_objects w3 = data_objects w) \<and>
      (0 < n \<longrightarrow> \<not> max_retries (args e) < 1 \<longrightarrow>
       random_choice (size_mapping (properties e)) w0 = Return (sname, r) w \<longrightarrow>
       draw_position w = Return (x, y) w1 \<longrightarrow>
         add_random_objects n e w0 =
           Raise (if obj_name_out \<notin> fst ` set (shapes (properties e))
                  then ShapeLookup obj_name_out else ColorLookup color_name) w3 \<and>
         calls w3 = calls w0 \<and> data_objects w3 = data_objects w0)) \<and>
   (add_random_objects n e w0 = Raise err w' \<longrightarrow>
    err = ShapeLookup s \<or> err = ColorLookup s \<longrightarrow>
      (\<exists>(loc :: locals) old cur. length (blender_objects loc) < n \<and>
         data_objects w' = data_objects w0 @ blender_objects loc \<and>
         calls w' = calls w0 @ old @ cur \<and> whole_slots old \<and>
         slot_triples (blender_objects loc) cur))"
proof (intro conjI impI)
  assume combos: "shape_color_combos e = Some combos"
    and c1: "random_choice combos w1 = Return (obj_name_out, color_choices) w2"
    and c2: "random_choice color_choices w2 = Return color_name w3"
    and un: "obj_name_out \<notin> fst ` set (shapes (properties e)) \<or>
         color_name \<notin> fst ` set (colors (properties e))"
  {
    assume "\<not> max_retries (args e) < num_tries + 1" and "draw_position w = Return (x, y) w1"
      and "dists_good (args e) x y r (positions loc)"
    note t = tries_unresolved [OF combos this c1 c2 un]
    show "tries e n i sname r num_tries loc w =
           Raise (if obj_name_out \<notin> fst ` set (shapes (properties e))
                  then ShapeLookup obj_name_out else ColorLookup color_name) w3"
      by (rule t(1))
    show "calls w3 = calls w" and "data_objects w3 = data_objects w"
      by (rule t(2) t(3))+
  }
  {
    assume n: "0 < n" and m: "\<not> max_retries (args e) < 1"
      and sz: "random_choice (size_mapping (properties e)) w0 = Return (sname, r) w"
      and pos: "draw_position w = Return (x, y) w1"
    have m': "\<not> max_retries (args e) < 0 + 1"
      using m by simp
    have good: "dists_good (args e) x y r (positions no_locals)"
      by (simp add: no_locals_def)
    note t = tries_unresolved [OF combos m' pos good c1 c2 un]
    have "slots e n 0 no_locals w0 =
           Raise (if obj_name_out \<notin> fst ` set (shapes (properties e))
                  then ShapeLookup obj_name_out else ColorLookup color_name) w3"
      using t(1) by (simp add: slots_next [OF n] sz)
    then show "add_random_objects n e w0 =
           Raise (if obj_name_out \<notin> fst ` set (shapes (properties e))
                  then ShapeLookup obj_name_out else ColorLookup color_name) w3"
      by (simp add: add_random_objects_def add_random_objects_locals_def)
    show "calls w3 = calls w0" and "data_objects w3 = data_objects w0"
      using t(2,3) random_choice_Return(2) [OF sz] by auto
  }
next
  assume "add_random_objects n e w0 = Raise err w'" and "err = ShapeLookup s \<or> err = ColorLookup s"
  then obtain i loc where i: "i < n" and scene: "slots_in_scene w0 n i loc w'"
    using add_random_objects_Raise_scene by blast
  from scene obtain old cur where "length (blender_objects loc) = i"
    and "data_objects w' = data_objects w0 @ blender_objects loc"
    and "calls w' = calls w0 @ old @ cur" and "whole_slots old"
    and "slot_triples (blender_objects loc) cur"
    unfolding slots_in_scene_def placed_in_scene_def by auto
  with i have "length (blender_objects loc) < n \<and>
         data_objects w' = data_objects w0 @ blender_objects loc \<and>
         calls w' = calls w0 @ old @ cur \<and> whole_slots old \<and>
         slot_triples (blender_objects loc) cur"
    by simp
  then show "\<exists>(loc :: locals) old cur. length (blender_objects loc) < n \<and>
         data_objects w' = data_objects w0 @ blender_objects loc \<and>
         calls w' = calls w0 @ old @ cur \<and> whole_slots old \<and>
         slot_triples (blender_objects loc) cur"
    by - (rule exI, rule exI, rule exI, assumption)
qed

theorem add_random_objects_unresolved_name_witness:
  "''cone'' \<notin> fst ` set (shapes (properties broken_env)) \<and>
   tries broken_env 2 1 ''small'' (7/20) 0 broken_locals
       (broken_world_after\<lparr>rng_ints := [1, 0], rng_units := [5/6, 1/2]\<rparr>) =
     Raise (ShapeLookup ''cone'') broken_world_after \<and>
   calls broken_world_after =
     calls (broken_world_after\<lparr>rng_ints := [1, 0], rng_units := [5/6, 1/2]\<rparr>) \<and>
   add_random_objects 2 broken_env (broken_world\<lparr>rng_ints := [0, 1, 0], rng_units := [1/2, 1/2]\<rparr>) =
     Raise (ShapeLookup ''cone'') (broken_world\<lparr>rng_ints := [], rng_units := []\<rparr>) \<and>
   calls (broken_world\<lparr>rng_ints := [], rng_units := []\<rparr>) = [] \<and>
   data_objects (broken_world\<lparr>rng_ints := [], rng_units := []\<rparr>) = [0, 1, 2, 3, 4, 5, 6] \<and>
   add_random_objects 2 broken_env broken_world =
     Raise (ShapeLookup ''cone'') broken_world_after \<and>
   (\<exists>(loc :: locals) old cur. length (blender_objects loc) < 2 \<and>
      data_objects broken_world_after = data_objects broken_world @ blender_objects loc \<and>
      calls broken_world_after = calls broken_world @ old @ cur \<and> whole_slots old \<and>
      slot_triples (blender_objects loc) cur)"
proof -
  let ?combos = "[(''cube'', [''red'']), (''cone'', [''red''])]"
  have shape: "''cone'' \<notin> fst ` set (shapes (properties broken_env))"
    by (simp add: broken_fields example_properties_def)
  then have un: "''cone'' \<notin> fst ` set (shapes (properties broken_env)) \<or>
      ''red'' \<notin> fst ` set (colors (properties broken_env))"
    by (rule disjI1)
  have tries: "\<not> max_retries (args broken_env) < 0 + 1" "\<not> max_retries (args broken_env) < 1"
    by (simp_all add: broken_fields ex_fields)
  have second:
    "draw_position (broken_world_after\<lparr>rng_ints := [1, 0], rng_units := [5/6, 1/2]\<rparr>) =
       Return (2, 0) (broken_world_after\<lparr>rng_ints := [1, 0]\<rparr>)"
    "dists_good (args broken_env) 2 0 (7/20) (positions broken_locals)"
    "random_choice ?combos (broken_world_after\<lparr>rng_ints := [1, 0]\<rparr>) =
       Return (''cone'', [''red'']) (broken_world_after\<lparr>rng_ints := [0]\<rparr>)"
    "random_choice [''red''] (broken_world_after\<lparr>rng_ints := [0]\<rparr>) =
       Return ''red'' broken_world_after"
    by (simp_all add: draw_position_def random_uniform_def random_random_def random_choice_def
        broken_world_after_def example_world_def broken_locals_def broken_fields ex_dists
        del: dists_good.simps)
  have first:
    "random_choice (size_mapping (properties broken_env))
       (broken_world\<lparr>rng_ints := [0, 1, 0], rng_units := [1/2, 1/2]\<rparr>) =
       Return (''large'', 7/10) (broken_world\<lparr>rng_ints := [1, 0], rng_units := [1/2, 1/2]\<rparr>)"
    "draw_position (broken_world\<lparr>rng_ints := [1, 0], rng_units := [1/2, 1/2]\<rparr>) =
       Return (0, 0) (broken_world\<lparr>rng_ints := [1, 0], rng_units := []\<rparr>)"
    "random_choice ?combos (broken_world\<lparr>rng_ints := [1, 0], rng_units := []\<rparr>) =
       Return (''cone'', [''red'']) (broken_world\<lparr>rng_ints := [0], rng_units := []\<rparr>)"
    "random_choice [''red''] (broken_world\<lparr>rng_ints := [0], rng_units := []\<rparr>) =
       Return ''red'' (broken_world\<lparr>rng_ints := [], rng_units := []\<rparr>)"
    by (simp_all add: draw_position_def random_uniform_def random_random_def random_choice_def
        broken_world_def example_world_def broken_fields ex_tables)
  have base: "calls broken_world = []" "data_objects broken_world = [0, 1, 2, 3, 4, 5, 6]"
    by (simp_all add: broken_world_def example_world_def)
  note slot = add_random_objects_unresolved_name
    [THEN conjunct1, rule_format, OF broken_fields(3) second(3,4) un,
     THEN conjunct1, rule_format, OF tries(1) second(1,2)]
  note start = add_random_objects_unresolved_name
    [THEN conjunct1, rule_format, OF broken_fields(3) first(3,4) un,
     THEN conjunct2, rule_format, OF _ tries(2) first(1,2), of 2]
  note run = add_random_objects_unresolved_name
    [THEN conjunct2, rule_format, OF broken_run disjI1 [OF refl]]
  show ?thesis
    using slot [of 2 1 "''small''"] start run
    by (simp add: shape broken_run base)
qed

text \<open>
  The failure is not raised before every change of the scene graph: in this run the
  restriction table names the shape 'cone', which the catalog does not have, and the
  first slot has added its object when the second slot draws it.
\<close>

theorem add_random_objects_unresolved_name_counterexample:
  "shape_color_combos broken_env = Some [(''cube'', [''red'']), (''cone'', [''red''])] \<and>
   shapes (properties broken_env) = [(''cube'', ''Cube''), (''sphere'', ''Sphere'')] \<and>
   add_random_objects 2 broken_env broken_world =
     Raise (ShapeLookup ''cone'') broken_world_after \<and>
   calls broken_world = [] \<and>
   calls broken_world_after =
     [AddObject ''Cube'' (7 / (10 * sqrt 2)) (0, 0) 0, SetLayer 7,
      AddMaterial ''Rubber'' [1, 0, 0, 1]]"
  by (simp add: broken_run broken_fields)
    (simp add: broken_world_def broken_world_after_def example_world_def example_properties_def)

section \<open>Properties of render_scene\<close>

lemma add_random_objects_none:
  "add_random_objects 0 e w = Return ([], []) w"
  by (simp add: add_random_objects_def add_random_objects_locals_def slots_done no_locals_def)

lemma render_Return:
  "render w = Return u w' \<Longrightarrow> \<exists>oks. w' = w\<lparr>render_ok := oks\<rparr>"
  by (auto simp: render_def split: option.splits)

lemma inner_loop_invariant:
  assumes "loop_preserved e n s I"
  shows "I st w \<Longrightarrow> set is \<subseteq> {..<nat (num_cams (args e) div 8)} \<Longrightarrow>
         inner_loop e n s j phi is st w = Return st' w' \<Longrightarrow> I st' w'"
proof (induction "is" arbitrary: st w)
  case Nil
  then show ?case by simp
next
  case (Cons i "is")
  from Cons.prems(3) obtain st1 w1
    where c: "camera_step e n s j phi i st w = Return st1 w1"
      and l: "inner_loop e n s j phi is st1 w1 = Return st' w'"
    by (auto split: result.splits)
  have "I st1 w1"
    using assms Cons.prems(1,2) c unfolding loop_preserved_def by auto
  then show ?case
    using Cons.IH [OF _ _ l] Cons.prems(2) by simp
qed

lemma outer_loop_invariant:
  assumes "loop_preserved e n s I"
  shows "I st w \<Longrightarrow> outer_loop e n s js st w = Return st' w' \<Longrightarrow> I st' w'"
proof (induction js arbitrary: st w)
  case Nil
  then show ?case by simp
next
  case (Cons j js)
  let ?phi = "pi * 3 / 10 / 8 * (real j + 1)"
  let ?w1 = "w\<lparr>camera_location :=
                   (fst (camera_location w), fst (snd (camera_location w)), 10 * cos ?phi)\<rparr>"
  from Cons.prems(2) obtain st1 w1
    where i: "inner_loop e n s j ?phi [0..<nat (num_cams (args e) div 8)] st ?w1 = Return st1 w1"
      and l: "outer_loop e n s js st1 w1 = Return st' w'"
    by (auto simp: Let_def split: result.splits)
  have "I st ?w1"
    using assms Cons.prems(1) unfolding loop_preserved_def by blast
  then have "I st1 w1"
    by (rule inner_loop_invariant [OF assms _ _ i]) auto
  then show ?case
    by (rule Cons.IH [OF _ l])
qed

lemma camera_step_Return:
  assumes "camera_step e n s j phi i st w = Return st' w'"
  obtains (placed) location objs bobjs w2 oks f
  where "length (data_objects w) = 7"
    and "add_random_objects n e (w\<lparr>camera_location := location\<rparr>) = Return (objs, bobjs) w2"
    and "w' = w2\<lparr>render_ok := oks\<rparr>"
    and "st' = st\<lparr>objects_var := Some objs, frames := frames st @ [f],
                  module_calls := module_calls st @
                    [Call_add_random_objects 7,
                     Call_render (num_cams (args e) div 8 * int j + int i)]\<rparr>"
  | (kept) location oks f
  where "length (data_objects w) \<noteq> 7"
    and "w' = w\<lparr>camera_location := location, render_ok := oks\<rparr>"
    and "st' = st\<lparr>frames := frames st @ [f],
                  module_calls := module_calls st @
                    [Call_render (num_cams (args e) div 8 * int j + int i)]\<rparr>"
  using assms
  by (auto simp: camera_step_def Let_def render_def split: result.splits prod.splits if_splits option.splits)

lemma loop_preserved_placed_once: "loop_preserved e n s (placed_once n w0)"
  unfolding loop_preserved_def
proof (intro conjI allI impI)
  fix st :: progress and w :: world and location
  assume "placed_once n w0 st w"
  then show "placed_once n w0 st (w\<lparr>camera_location := location\<rparr>)"
    by (simp add: placed_once_def)
next
  fix j phi i st w st' w'
  assume I: "placed_once n w0 st w"
    and c: "camera_step e n s j phi i st w = Return st' w'"
  from c show "placed_once n w0 st' w'"
  proof (cases rule: camera_step_Return)
    case (placed location objs bobjs w2 oks f)
    note grow = add_random_objects_data_objects [OF placed(2)]
    show ?thesis
    proof (cases "0 < n")
      case True
      have first: "filter is_placement (module_calls st) = []"
        using I placed(1) True unfolding placed_once_def by auto
      have len: "length (data_objects w') = 7 + n"
        using grow placed(1,3) by simp
      have base: "length (data_objects w0) = 7"
        using I first placed(1) unfolding placed_once_def by auto
      show ?thesis
        unfolding placed_once_def
        using I first len base True
        by (auto simp: placed(3,4) placed_once_def)
    next
      case False
      then have "w2 = w\<lparr>camera_location := location\<rparr>"
        using placed(2) by (simp add: add_random_objects_none)
      moreover have "length (data_objects w0) = 7"
        using I False placed(1) unfolding placed_once_def by auto
      ultimately show ?thesis
        unfolding placed_once_def
        using I False
        by (auto simp: placed(3,4) placed_once_def)
    qed
  next
    case (kept location oks f)
    then show ?thesis
      using I by (simp add: placed_once_def)
  qed
qed

lemma rand_Return: "rand L w = Return v w' \<Longrightarrow> \<exists>us. w' = w\<lparr>rng_units := us\<rparr>"
  by (auto simp: rand_def split: result.splits dest: random_random_Return)

lemma jitter_Return:
  assumes "jitter L location w = Return v w'"
  shows "\<exists>us. w' = w\<lparr>rng_units := us\<rparr>"
proof -
  obtain a b c where "location = (a, b, c)"
    by (cases location)
  with assms obtain da w1 db w2 dc
    where "rand L w = Return da w1" "rand L w1 = Return db w2" "rand L w2 = Return dc w'"
    by (auto simp: jitter_def split: result.splits)
  then show ?thesis
    by (auto dest!: rand_Return)
qed

lemma jitter_lamps_Return:
  assumes "jitter_lamps a w = Return u w'"
  shows "data_objects w' = data_objects w" and "calls w' = calls w"
proof -
  from assms obtain w1 w2
    where k: "jitter_key a w = Return () w1" and b: "jitter_back a w1 = Return () w2"
      and f: "jitter_fill a w2 = Return () w'"
    by (auto simp: jitter_lamps_def split: result.splits)
  have "data_objects w1 = data_objects w \<and> calls w1 = calls w"
    using k by (auto simp: jitter_key_def split: if_splits result.splits dest!: jitter_Return)
  moreover have "data_objects w2 = data_objects w1 \<and> calls w2 = calls w1"
    using b by (auto simp: jitter_back_def split: if_splits result.splits dest!: jitter_Return)
  moreover have "data_objects w' = data_objects w2 \<and> calls w' = calls w2"
    using f by (auto simp: jitter_fill_def split: if_splits result.splits dest!: jitter_Return)
  ultimately show "data_objects w' = data_objects w" and "calls w' = calls w"
    by simp_all
qed

lemma render_scene_Return:
  assumes "render_scene e n w = Return res w'"
  obtains w1 where "jitter_lamps (args e) w = Return () w1"
    and "num_cams (args e) \<noteq> 0"
    and "outer_loop e n (360 / real_of_int (num_cams (args e)) * 8) [0..<8]
           \<lparr>frames = [], objects_var = None, module_calls = []\<rparr> w1 = Return res w'"
  using assms by (auto simp: render_scene_def split: result.splits if_splits)

lemma no_tier_no_step:
  assumes "num_cams (args e) div 8 \<le> 0"
  shows "outer_loop e n s js st w = Return st' w' \<Longrightarrow> st' = st"
proof (induction js arbitrary: w)
  case Nil
  then show ?case by simp
next
  case (Cons j js)
  then show ?case
    using assms by (auto simp: Let_def split: result.splits)
qed

lemma upt_8: "[0..<8] = [0, 1, 2, 3, 4, 5, 6, 7]"
  by (simp add: upt_rec)

lemma ex_fields2:
  "num_cams example_args = 8"
  "key_light_jitter example_args = 0"
  "back_light_jitter example_args = 0"
  "fill_light_jitter example_args = 0"
  by (simp_all add: example_args_def)

lemma example_run_camera:
  "add_random_objects 2 example_env (example_world\<lparr>camera_location := c\<rparr>) =
     Return (placed_objects example_locals, blender_objects example_locals)
       (example_world_after\<lparr>camera_location := c\<rparr>)"
  by (simp add: add_random_objects_def run_simps ex_tables ex_fields ex_dists example_world_def
      example_locals_def example_world_after_def del: dists_good.simps(2))

lemma ex_world_fields:
  "data_objects example_world = [0, 1, 2, 3, 4, 5, 6]"
  "render_ok example_world = [True, False, True, True, True, True, True, True, True]"
  "camera_location example_world = (0, 0, 0)"
  "data_objects example_world_after = [0, 1, 2, 3, 4, 5, 6, 7, 8]"
  "render_ok example_world_after = [True, False, True, True, True, True, True, True, True]"
  by (simp_all add: example_world_def example_world_after_def)

lemma example_render_scene:
  "\<exists>res w'. render_scene example_env 2 example_world = Return res w' \<and>
     objects_var res = Some (placed_objects example_locals) \<and>
     module_calls res =
       [Call_add_random_objects 7, Call_render 0, Call_render 1, Call_render 2, Call_render 3,
        Call_render 4, Call_render 5, Call_render 6, Call_render 7]"
  by (simp add: render_scene_def jitter_lamps_def jitter_key_def jitter_back_def jitter_fill_def
      upt_8 upt_rec camera_step_def render_def Let_def ex_fields ex_fields2 ex_world_fields
      example_run_camera)

lemma single_camera_fields:
  "num_cams (args single_camera_env) = 1"
  "key_light_jitter (args single_camera_env) = 0"
  "back_light_jitter (args single_camera_env) = 0"
  "fill_light_jitter (args single_camera_env) = 0"
  by (simp_all add: single_camera_env_def example_args_def)

lemma single_camera_render_scene:
  "\<exists>w'. render_scene single_camera_env n example_world =
     Return \<lparr>frames = [], objects_var = None, module_calls = []\<rparr> w' \<and>
     data_objects w' = data_objects example_world \<and> calls w' = calls example_world"
  by (simp add: render_scene_def jitter_lamps_def jitter_key_def jitter_back_def jitter_fill_def
      upt_8 Let_def single_camera_fields)

text \<open>
  C10. In a run of render_scene that returns, add_random_objects is only called when
  \<open>len(bpy.data.objects)\<close> has just been read as 7. For \<open>num_objects > 0\<close> it is called
  at most once, since the scene then holds more than 7 objects; for \<open>num_objects = 0\<close>
  it places nothing and the scene graph stays as it was. When it is never called,
  \<open>objects\<close> is still None at the end and the scene graph is unchanged; and it is never
  called when \<open>num_cams // 8\<close> is 0 or the base scene does not hold exactly 7 objects.
\<close>

theorem render_scene_places_once:
  assumes "render_scene e n w = Return res w'"
  shows "(\<forall>k. Call_add_random_objects k \<in> set (module_calls res) \<longrightarrow> k = 7) \<and>
    (0 < n \<longrightarrow> length (filter is_placement (module_calls res)) \<le> 1) \<and>
    (n = 0 \<longrightarrow> data_objects w' = data_objects w \<and> calls w' = calls w) \<and>
    (filter is_placement (module_calls res) = [] \<longrightarrow>
       objects_var res = None \<and> data_objects w' = data_objects w \<and> calls w' = calls w) \<and>
    (num_cams (args e) div 8 \<le> 0 \<or> length (data_objects w) \<noteq> 7 \<longrightarrow>
       filter is_placement (module_calls res) = [])"
proof -
  from assms obtain w1 where j: "jitter_lamps (args e) w = Return () w1"
    and l: "outer_loop e n (360 / real_of_int (num_cams (args e)) * 8) [0..<8]
           \<lparr>frames = [], objects_var = None, module_calls = []\<rparr> w1 = Return res w'"
    by (rule render_scene_Return)
  note same = jitter_lamps_Return [OF j]
  have "placed_once n w1 \<lparr>frames = [], objects_var = None, module_calls = []\<rparr> w1"
    by (simp add: placed_once_def)
  then have I: "placed_once n w1 res w'"
    by (rule outer_loop_invariant [OF loop_preserved_placed_once _ l])
  have "filter is_placement (module_calls res) = []" if "num_cams (args e) div 8 \<le> 0"
    using no_tier_no_step [OF that l] by simp
  then show ?thesis
    using I same unfolding placed_once_def by auto
qed

theorem render_scene_places_once_witness:
  "(\<exists>res w'. render_scene example_env 2 example_world = Return res w' \<and>
      Call_add_random_objects 7 \<in> set (module_calls res) \<and> (0::nat) < 2 \<and>
      length (filter is_placement (module_calls res)) \<le> 1) \<and>
   (\<exists>res w'. render_scene single_camera_env 0 example_world = Return res w' \<and>
      num_cams (args single_camera_env) div 8 \<le> 0 \<and>
      filter is_placement (module_calls res) = [] \<and> objects_var res = None \<and>
      data_objects w' = data_objects example_world \<and> calls w' = calls example_world)"
proof -
  obtain res w' where run: "render_scene example_env 2 example_world = Return res w'"
    and calls: "module_calls res =
       [Call_add_random_objects 7, Call_render 0, Call_render 1, Call_render 2, Call_render 3,
        Call_render 4, Call_render 5, Call_render 6, Call_render 7]"
    using example_render_scene by blast
  have "length (filter is_placement (module_calls res)) \<le> 1"
    using render_scene_places_once [OF run] by simp
  then have first: "\<exists>res w'. render_scene example_env 2 example_world = Return res w' \<and>
      Call_add_random_objects 7 \<in> set (module_calls res) \<and> (0::nat) < 2 \<and>
      length (filter is_placement (module_calls res)) \<le> 1"
    using run calls by auto
  obtain res0 w0 where run0: "render_scene single_camera_env 0 example_world = Return res0 w0"
    using single_camera_render_scene [of 0] by blast
  have small: "num_cams (args single_camera_env) div 8 \<le> 0"
    by (simp add: single_camera_fields)
  have "filter is_placement (module_calls res0) = [] \<and> objects_var res0 = None \<and>
      data_objects w0 = data_objects example_world \<and> calls w0 = calls example_world"
    using render_scene_places_once [OF run0] small by simp
  then show ?thesis
    using first run0 small by blast
qed

lemma loop_preserved_unrelated:
  "loop_preserved e n s (\<lambda>st w. Call_compute_all_relationships \<notin> set (module_calls st))"
  unfolding loop_preserved_def
  by (auto elim!: camera_step_Return)

lemma render_scene_relationship_runs:
  assumes "render_scene e n w = Return res w'"
  shows "relationship_runs res = 0"
proof -
  from assms obtain w1
    where l: "outer_loop e n (360 / real_of_int (num_cams (args e)) * 8) [0..<8]
           \<lparr>frames = [], objects_var = None, module_calls = []\<rparr> w1 = Return res w'"
    by (rule render_scene_Return)
  have "Call_compute_all_relationships \<notin> set (module_calls res)"
    by (rule outer_loop_invariant [OF loop_preserved_unrelated _ l]) simp
  then show ?thesis
    by (simp add: relationship_runs_def)
qed

text \<open>
  C6. render_scene has no call of compute_all_relationships. In the example run it
  places the two objects and renders eight frames, and compute_all_relationships has
  run zero times, where once per assembled scene was asked for; the same holds of
  every run that returns (\<open>render_scene_relationship_runs\<close>).
\<close>

theorem render_scene_skips_relationships:
  "map_option objects_var (returned (render_scene example_env 2 example_world)) =
     Some (Some (placed_objects example_locals)) \<and>
   map_option relationship_runs (returned (render_scene example_env 2 example_world)) = Some 0 \<and>
   map_option relationship_runs (returned (render_scene example_env 2 example_world)) \<noteq> Some 1"
proof -
  obtain res w' where run: "render_scene example_env 2 example_world = Return res w'"
    and objs: "objects_var res = Some (placed_objects example_locals)"
    and calls: "module_calls res =
       [Call_add_random_objects 7, Call_render 0, Call_render 1, Call_render 2, Call_render 3,
        Call_render 4, Call_render 5, Call_render 6, Call_render 7]"
    using example_render_scene by blast
  show ?thesis
    by (simp add: run returned_def relationship_runs_def calls objs)
qed

lemma inner_loop_frames:
  "inner_loop e n s j phi is st w = Return st' w' \<Longrightarrow>
   length (frames st') = length (frames st) + length is"
proof (induction "is" arbitrary: st w)
  case Nil
  then show ?case by simp
next
  case (Cons i "is")
  from Cons.prems obtain st1 w1
    where c: "camera_step e n s j phi i st w = Return st1 w1"
      and l: "inner_loop e n s j phi is st1 w1 = Return st' w'"
    by (auto split: result.splits)
  have "length (frames st1) = Suc (length (frames st))"
    using c by (cases rule: camera_step_Return) simp_all
  then show ?case
    using Cons.IH [OF l] by simp
qed

lemma outer_loop_frames:
  "outer_loop e n s js st w = Return st' w' \<Longrightarrow>
   length (frames st') = length (frames st) + length js * nat (num_cams (args e) div 8)"
proof (induction js arbitrary: st w)
  case Nil
  then show ?case by simp
next
  case (Cons j js)
  from Cons.prems obtain st1 w1 phi w0
    where i: "inner_loop e n s j phi [0..<nat (num_cams (args e) div 8)] st w0 = Return st1 w1"
      and l: "outer_loop e n s js st1 w1 = Return st' w'"
    by (auto simp: Let_def split: result.splits)
  show ?case
    using inner_loop_frames [OF i] Cons.IH [OF l] by simp
qed

lemma render_scene_frame_count:
  assumes "render_scene e n w = Return res w'"
  shows "length (frames res) = 8 * nat (num_cams (args e) div 8)"
proof -
  from assms obtain w1
    where l: "outer_loop e n (360 / real_of_int (num_cams (args e)) * 8) [0..<8]
           \<lparr>frames = [], objects_var = None, module_calls = []\<rparr> w1 = Return res w'"
    by (rule render_scene_Return)
  show ?thesis
    using outer_loop_frames [OF l] by simp
qed

text \<open>
  C4. With \<open>num_cams = 1\<close> the inner loop runs over \<open>range(1 // 8)\<close>, which is empty:
  render_scene returns without a single frame, where one camera pose was asked for.
  In general a run that returns has made \<open>8 * (num_cams // 8)\<close> frames
  (\<open>render_scene_frame_count\<close>).
\<close>

theorem render_scene_single_camera:
  "num_cams (args single_camera_env) = 1 \<and>
   map_option frames (returned (render_scene single_camera_env 2 example_world)) = Some []"
proof -
  obtain w' where "render_scene single_camera_env 2 example_world =
     Return \<lparr>frames = [], objects_var = None, module_calls = []\<rparr> w'"
    using single_camera_render_scene [of 2] by blast
  then show ?thesis
    by (simp add: returned_def single_camera_fields)
qed

end
